theory Spec2Isabelle
  imports Main "HOL-Library.Multiset"
begin

section \<open>Configuration (index.js, lines 15-33)\<close>

text \<open>
  The process-wide \<open>CONFIG\<close> object. Every function below takes the configuration as an
  explicit argument, so that a property can be stated for any setting of the recognised
  options; \<open>CONFIG\<close> is the object of the source. Times are milliseconds.
  \<open>PERMANENT_REDIRECT\<close> is \<open>CONFIG.VALID_STATUS_CODES.PERMANENT_REDIRECT\<close>, \<open>SOURCE\<close> and
  \<open>DESTINATION\<close> are \<open>CONFIG.CSV.COLUMNS.SOURCE\<close> and \<open>CONFIG.CSV.COLUMNS.DESTINATION\<close>.
\<close>

record config =
  MAX_REDIRECTIONS :: nat
  MAX_RETRIES :: nat
  INITIAL_BACKOFF :: nat
  REQUEST_TIMEOUT :: nat
  CHUNK_SIZE :: nat
  CHUNK_DELAY :: nat
  DEBUG :: bool
  PERMANENT_REDIRECT :: "int list"
  SOURCE :: string
  DESTINATION :: string

definition CONFIG :: config where
  "CONFIG = \<lparr> MAX_REDIRECTIONS = 3, MAX_RETRIES = 3, INITIAL_BACKOFF = 1000,
     REQUEST_TIMEOUT = 10000, CHUNK_SIZE = 8, CHUNK_DELAY = 2000, DEBUG = False,
     PERMANENT_REDIRECT = [301, 308], SOURCE = ''src'', DESTINATION = ''destination'' \<rparr>"

section \<open>JavaScript values\<close>

text \<open>
  A value that is a string, \<open>null\<close> or \<open>undefined\<close> is a \<open>string option\<close>. It is truthy
  when it is a non-empty string. \<open>xs[i]\<close> out of range is \<open>undefined\<close>, and \<open>===\<close> between two
  such values is equality of options (\<open>undefined === undefined\<close> holds).
\<close>

definition truthy :: "string option \<Rightarrow> bool" where
  "truthy v = (case v of None \<Rightarrow> False | Some s \<Rightarrow> s \<noteq> [])"

fun at_index :: "'a list \<Rightarrow> nat \<Rightarrow> 'a option" where
  "at_index [] i = None"
| "at_index (x # xs) 0 = Some x"
| "at_index (x # xs) (Suc i) = at_index xs i"

section \<open>The platform: URL parsing and the network\<close>

text \<open>
  \<open>new URL(s)\<close>, \<open>http.request\<close> and \<open>https.request\<close> belong to the platform, not to the
  repository, so they are parameters of the model. \<open>URL env s\<close> is \<open>None\<close> when the constructor
  throws. \<open>request env handler options t\<close> is what the request issued at time \<open>t\<close> ends with:
  the response's \<open>end\<close> event (status code and \<open>Location\<close> header) or the request's
  \<open>error\<close> event (its \<open>error.code\<close>), each after a latency. Every request issued is taken
  to end in one of the two, and the call of \<open>request\<close> itself is taken not to throw.
  \<open>localeCompare env a b\<close> is \<open>a.localeCompare(b)\<close>.
\<close>

record url =
  protocol :: string
  hostname :: string
  pathname :: string
  search :: string

record options =
  opt_protocol :: string
  opt_hostname :: string
  opt_method :: string
  opt_path :: string
  opt_timeout :: nat

datatype handler = https | http

datatype reply =
    Responded nat int "string option"
  | Failed nat string

record env =
  URL :: "string \<Rightarrow> url option"
  request :: "handler \<Rightarrow> options \<Rightarrow> nat \<Rightarrow> reply"
  localeCompare :: "string \<Rightarrow> string \<Rightarrow> int"

datatype error =
    InvalidURL string
  | NetworkError string
  | NoDataFound
  | StreamError string

datatype event =
    GetHeaders nat string
  | Request nat handler options
  | SetTimeout nat nat
  | HopLimit nat

datatype 'a promise = Resolved 'a | Rejected error

text \<open>
  An asynchronous call is modelled by how its promise settles, when, and what it did until
  then: \<open>GetHeaders t u\<close> is a call of \<open>getHeaders(u)\<close> by the resolver at time \<open>t\<close>,
  \<open>Request t h o\<close> a request handed to the network, \<open>SetTimeout t ms\<close> a wait of \<open>ms\<close>
  started at \<open>t\<close>, and \<open>HopLimit t\<close> marks that the resolver stopped at the hop limit
  (the \<open>return\<close> of line 180).
\<close>

record 'a async =
  settled :: "'a promise"
  settled_at :: nat
  trace :: "event list"

section \<open>Header Fetcher: getHeaders (index.js, lines 294-356)\<close>

record headers =
  statusCode :: int
  location :: "string option"

definition transient :: "string \<Rightarrow> bool" where
  "transient c = (c = ''ENOMEM'' \<or> c = ''ECONNRESET'')"

definition request_options :: "config \<Rightarrow> url \<Rightarrow> options" where
  "request_options cfg parsedURL =
     \<lparr> opt_protocol = protocol parsedURL, opt_hostname = hostname parsedURL,
       opt_method = ''GET'', opt_path = pathname parsedURL @ search parsedURL,
       opt_timeout = REQUEST_TIMEOUT cfg \<rparr>"

definition protocolHandler :: "url \<Rightarrow> handler" where
  "protocolHandler parsedURL = (if protocol parsedURL = ''https:'' then https else http)"

function getHeaders :: "config \<Rightarrow> env \<Rightarrow> string \<Rightarrow> nat \<Rightarrow> nat \<Rightarrow> headers async" where
  "getHeaders cfg env urlToParse retryCount t =
     (case URL env urlToParse of
        None \<Rightarrow> \<lparr> settled = Rejected (InvalidURL urlToParse), settled_at = t, trace = [] \<rparr>
      | Some parsedURL \<Rightarrow>
          (case request env (protocolHandler parsedURL) (request_options cfg parsedURL) t of
             Responded ms sc loc \<Rightarrow>
               \<lparr> settled = Resolved \<lparr> statusCode = sc,
                                       location = (if truthy loc then loc else None) \<rparr>,
                 settled_at = t + ms,
                 trace = [Request t (protocolHandler parsedURL) (request_options cfg parsedURL)] \<rparr>
           | Failed ms c \<Rightarrow>
               if transient c \<and> retryCount < MAX_RETRIES cfg
               then (let backoffTime = INITIAL_BACKOFF cfg * 2 ^ retryCount;
                         result = getHeaders cfg env urlToParse (retryCount + 1)
                                    (t + ms + backoffTime)
                     in result \<lparr> trace :=
                          Request t (protocolHandler parsedURL) (request_options cfg parsedURL)
                          # SetTimeout (t + ms) backoffTime # trace result \<rparr>)
               else \<lparr> settled = Rejected (NetworkError c), settled_at = t + ms,
                      trace = [Request t (protocolHandler parsedURL)
                                 (request_options cfg parsedURL)] \<rparr>))"
  by pat_completeness auto
termination
  by (relation "measure (\<lambda>(cfg, env, urlToParse, retryCount, t). MAX_RETRIES cfg - retryCount)")
     auto

declare getHeaders.simps [simp del]

section \<open>Validity Policy: isRedirectValid (index.js, lines 231-252)\<close>

record redirect =
  rlocation :: string
  rcode :: int

definition isRedirectValid ::
  "config \<Rightarrow> string \<Rightarrow> string \<Rightarrow> redirect list \<Rightarrow> nat \<Rightarrow> int \<Rightarrow> bool" where
  "isRedirectValid cfg currentUrl targetUrl redirectsList redirectCount finalStatusCode =
     (currentUrl = targetUrl \<and>
      redirectCount = 1 \<and>
      (map_option rcode (at_index redirectsList 0) = at_index (PERMANENT_REDIRECT cfg) 0 \<or>
       map_option rcode (at_index redirectsList 0) = at_index (PERMANENT_REDIRECT cfg) 1) \<and>
      finalStatusCode = 200)"

section \<open>Redirect Resolver: checkURL (index.js, lines 163-221)\<close>

text \<open>
  The object a resolution resolves with. \<open>dest_actual\<close> is \<open>headers.location\<close> on the
  hop-limit path, hence a string or \<open>null\<close>.
\<close>

record outcome =
  code :: int
  source :: string
  dest_wanted :: string
  dest_actual :: "string option"
  redirectCounter :: nat
  redirectsList :: "redirect list"
  is_valid :: bool

text \<open>\<open>headers?.location\<close>\<close>

definition headers_location :: "headers option \<Rightarrow> string option" where
  "headers_location hdrs = (case hdrs of None \<Rightarrow> None | Some h \<Rightarrow> location h)"

text \<open>
  The inner function \<open>check\<close>. Its closure variables \<open>redirectionsList\<close> and
  \<open>redirectionsCount\<close> are passed along; the primed names are their values after the push
  of lines 171-177. \<open>getHeaders(null)\<close> throws in the URL constructor, as \<open>''null''\<close>
  is no absolute URL.
\<close>

function check ::
  "config \<Rightarrow> env \<Rightarrow> string \<Rightarrow> string \<Rightarrow> nat \<Rightarrow> headers option \<Rightarrow> redirect list \<Rightarrow> nat \<Rightarrow> nat
     \<Rightarrow> outcome async" where
  "check cfg env src dest maxRedirections hdrs redirectionsList redirectionsCount t =
     (let URLToCheck = (case hdrs of None \<Rightarrow> Some src | Some h \<Rightarrow> location h);
          redirectionsList' =
            (if truthy (headers_location hdrs)
             then redirectionsList @
                    [\<lparr> rlocation = the (headers_location hdrs), rcode = statusCode (the hdrs) \<rparr>]
             else redirectionsList);
          redirectionsCount' =
            (if truthy (headers_location hdrs) then redirectionsCount + 1 else redirectionsCount)
      in if hdrs \<noteq> None \<and> redirectionsCount' \<ge> maxRedirections then
           \<lparr> settled = Resolved
               \<lparr> code = statusCode (the hdrs), source = src, dest_wanted = dest,
                 dest_actual = headers_location hdrs, redirectCounter = redirectionsCount',
                 redirectsList = redirectionsList', is_valid = False \<rparr>,
             settled_at = t, trace = [HopLimit t] \<rparr>
         else
           (case URLToCheck of
              None \<Rightarrow>
                \<lparr> settled = Rejected (InvalidURL ''null''), settled_at = t,
                  trace = [GetHeaders t ''null''] \<rparr>
            | Some u \<Rightarrow>
                (let fetched = getHeaders cfg env u 0 t in
                 case settled fetched of
                   Rejected e \<Rightarrow>
                     \<lparr> settled = Rejected e, settled_at = settled_at fetched,
                       trace = GetHeaders t u # trace fetched \<rparr>
                 | Resolved h' \<Rightarrow>
                     if truthy (location h') then
                       (let rest = check cfg env src dest maxRedirections (Some h')
                                     redirectionsList' redirectionsCount' (settled_at fetched)
                        in rest \<lparr> trace := GetHeaders t u # trace fetched @ trace rest \<rparr>)
                     else
                       \<lparr> settled = Resolved
                           \<lparr> code = statusCode h', source = src, dest_wanted = dest,
                             dest_actual = Some u, redirectCounter = redirectionsCount',
                             redirectsList = redirectionsList',
                             is_valid = isRedirectValid cfg u dest redirectionsList'
                                          redirectionsCount' (statusCode h') \<rparr>,
                         settled_at = settled_at fetched,
                         trace = GetHeaders t u # trace fetched \<rparr>)))"
  by pat_completeness auto
termination
  apply (relation "measure (\<lambda>(cfg, env, src, dest, maxRedirections, hdrs, rl, rc, t).
            (case hdrs of None \<Rightarrow> maxRedirections + 1
             | Some h \<Rightarrow> if truthy (location h) then maxRedirections - rc
                         else maxRedirections - rc + 1))")
  apply (auto simp: headers_location_def split: option.splits)
  done

declare check.simps [simp del]

definition checkURL :: "config \<Rightarrow> env \<Rightarrow> string \<Rightarrow> string \<Rightarrow> nat \<Rightarrow> nat \<Rightarrow> outcome async" where
  "checkURL cfg env src dest maxRedirections t =
     check cfg env src dest maxRedirections None [] 0 t"

text \<open>The URLs handed to \<open>getHeaders\<close> by the resolver, in order.\<close>

fun fetched_urls :: "event list \<Rightarrow> string list" where
  "fetched_urls [] = []"
| "fetched_urls (GetHeaders t u # es) = u # fetched_urls es"
| "fetched_urls (e # es) = fetched_urls es"

section \<open>Batch Scheduler: processUrls (index.js, lines 94-154)\<close>

text \<open>A parsed CSV row: an object from column names to values.\<close>

type_synonym row = "string \<Rightarrow> string option"

record summary =
  valid :: nat
  invalid :: nat
  total :: nat

record 'u report =
  result :: summary
  urls :: "'u list"

text \<open>
  Lines 123-145: what the callback does once \<open>await checkURL(...)\<close> has resolved. No
  \<open>await\<close> stands between these statements, so they run as one step of the event loop.
\<close>

definition recordParsedURL :: "outcome report \<Rightarrow> outcome \<Rightarrow> outcome report" where
  "recordParsedURL report parsedURL =
     (let counted = (result report) \<lparr> total := total (result report) + 1 \<rparr>;
          judged = (if is_valid parsedURL then counted \<lparr> valid := valid counted + 1 \<rparr>
                    else counted \<lparr> invalid := invalid counted + 1 \<rparr>)
      in \<lparr> result = judged, urls = urls report @ [parsedURL] \<rparr>)"

text \<open>
  Lines 109-122: the callback of \<open>chunk.map\<close>, called at time \<open>t\<close>. It returns at once for a
  row without both URLs; otherwise it starts a resolution and waits for it.
\<close>

datatype task = Skipped | Checked "outcome async"

definition chunk_callback :: "config \<Rightarrow> env \<Rightarrow> row \<Rightarrow> nat \<Rightarrow> task" where
  "chunk_callback cfg env item t =
     (let sourceUrl = item (SOURCE cfg);
          destinationUrl = item (DESTINATION cfg)
      in if \<not> truthy sourceUrl \<or> \<not> truthy destinationUrl then Skipped
         else Checked (checkURL cfg env (the sourceUrl) (the destinationUrl)
                         (MAX_REDIRECTIONS cfg) t))"

record started =
  row_index :: nat
  started_at :: nat
  task :: task

text \<open>
  \<open>Promise.all\<close> over the callbacks' promises, all started at \<open>t\<close>: it is rejected as soon as
  one of them is (with several at the same instant, the first in the array), and is
  fulfilled when all of them are. The promise of a skipped row is fulfilled at once.
\<close>

fun rejection :: "task \<Rightarrow> (nat \<times> error) option" where
  "rejection Skipped = None"
| "rejection (Checked r) =
     (case settled r of Rejected e \<Rightarrow> Some (settled_at r, e) | Resolved v \<Rightarrow> None)"

fun fulfilled_at :: "nat \<Rightarrow> task \<Rightarrow> nat" where
  "fulfilled_at t Skipped = t"
| "fulfilled_at t (Checked r) = settled_at r"

fun first_rejection :: "task list \<Rightarrow> (nat \<times> error) option" where
  "first_rejection [] = None"
| "first_rejection (p # ps) =
     (case (rejection p, first_rejection ps) of
        (None, later) \<Rightarrow> later
      | (Some r, None) \<Rightarrow> Some r
      | (Some r, Some r') \<Rightarrow> if fst r \<le> fst r' then Some r else Some r')"

definition Promise_all :: "nat \<Rightarrow> task list \<Rightarrow> unit async" where
  "Promise_all t ps =
     (case first_rejection ps of
        Some (at, e) \<Rightarrow> \<lparr> settled = Rejected e, settled_at = at, trace = [] \<rparr>
      | None \<Rightarrow> \<lparr> settled = Resolved (), settled_at = fold max (map (fulfilled_at t) ps) t,
                  trace = [] \<rparr>)"

text \<open>
  The state of the \<open>for\<close> loop: the current time, every callback started so far, and the
  errors the \<open>catch\<close> of line 148 has printed.
\<close>

record run =
  now :: nat
  tasks :: "started list"
  console_error :: "error list"

text \<open>One iteration of the loop, lines 98-152, for the chunk that starts at row \<open>i\<close>.\<close>

definition process_chunk :: "config \<Rightarrow> env \<Rightarrow> row list \<Rightarrow> nat \<Rightarrow> run \<Rightarrow> run" where
  "process_chunk cfg env data i st =
     (let chunk = take (CHUNK_SIZE cfg) (drop i data);
          callbacks = map (\<lambda>(index, item).
                        \<lparr> row_index = i + index, started_at = now st,
                          task = chunk_callback cfg env item (now st) \<rparr>)
                        (enumerate 0 chunk);
          awaited = Promise_all (now st) (map task callbacks)
      in \<lparr> now = settled_at awaited + CHUNK_DELAY cfg,
           tasks = tasks st @ callbacks,
           console_error = console_error st @
             (case settled awaited of Rejected e \<Rightarrow> [e] | Resolved u \<Rightarrow> []) \<rparr>)"

text \<open>
  The loop \<open>for (let i = 0; i < data.length; i += CONFIG.CHUNK_SIZE)\<close>. With a chunk size
  of 0 it never ends, so the loop is a partial function: \<open>None\<close> is not returning.
\<close>

partial_function (option) processUrls_from ::
  "config \<Rightarrow> env \<Rightarrow> row list \<Rightarrow> nat \<Rightarrow> run \<Rightarrow> run option" where
  "processUrls_from cfg env data i st =
     (if i < length data
      then processUrls_from cfg env data (i + CHUNK_SIZE cfg) (process_chunk cfg env data i st)
      else Some st)"

declare processUrls_from.simps [code]

definition processUrls :: "config \<Rightarrow> env \<Rightarrow> row list \<Rightarrow> nat \<Rightarrow> run option" where
  "processUrls cfg env data t =
     processUrls_from cfg env data 0 \<lparr> now = t, tasks = [], console_error = [] \<rparr>"

text \<open>
  The \<open>report\<close> object is changed by the callbacks as their resolutions resolve, also by
  those of an earlier chunk that are still in flight. Its state is therefore a function of
  time: the callbacks that have resumed by \<open>T\<close>, in the order of their resolutions' settling
  (at the same instant, in the order they were started), each applying \<open>recordParsedURL\<close>.
\<close>

fun completion :: "started \<Rightarrow> (nat \<times> outcome) list" where
  "completion s =
     (case task s of
        Skipped \<Rightarrow> []
      | Checked r \<Rightarrow> (case settled r of Resolved parsedURL \<Rightarrow> [(settled_at r, parsedURL)]
                                     | Rejected e \<Rightarrow> []))"

definition completions :: "started list \<Rightarrow> (nat \<times> outcome) list" where
  "completions ts = sort_key fst (concat (map completion ts))"

definition report_at :: "outcome report \<Rightarrow> started list \<Rightarrow> nat \<Rightarrow> outcome report" where
  "report_at report ts T =
     foldl recordParsedURL report (map snd (filter (\<lambda>c. fst c \<le> T) (completions ts)))"

text \<open>Everything the started callbacks do on the network.\<close>

definition activity :: "started list \<Rightarrow> event list" where
  "activity ts = concat (map (\<lambda>s. case task s of Skipped \<Rightarrow> [] | Checked r \<Rightarrow> trace r) ts)"

section \<open>Reading the input: getData (index.js, lines 259-286)\<close>

text \<open>
  What the pipeline \<open>fs.createReadStream(filePath).pipe(csv())\<close> does. The listeners of
  lines 265-284 are registered on the parser that \<open>pipe\<close> returns, so they see the parser's
  \<open>data\<close> events followed by its \<open>end\<close> (\<open>Ended\<close>) or its \<open>error\<close> (\<open>Errored\<close>). An error
  of the file's read stream (\<open>ReadFailed\<close>: the file cannot be opened or read) is an event
  of that stream, on which the program registers no listener, and \<open>pipe\<close> does not pass it
  on to the parser: the parser then emits neither \<open>end\<close> nor \<open>error\<close>.
\<close>

datatype csv_stream =
  Ended "row list" | Errored "row list" string | ReadFailed "row list" string

definition missing_columns :: "config \<Rightarrow> row \<Rightarrow> bool" where
  "missing_columns cfg data = (\<not> truthy (data (SOURCE cfg)) \<or> \<not> truthy (data (DESTINATION cfg)))"

text \<open>The rows \<open>getData\<close> prints its warning for (\<open>console.warn\<close>, line 271).\<close>

definition getData_warnings :: "config \<Rightarrow> csv_stream \<Rightarrow> row list" where
  "getData_warnings cfg stream =
     (case stream of Ended results \<Rightarrow> filter (missing_columns cfg) results
                   | Errored results e \<Rightarrow> filter (missing_columns cfg) results
                   | ReadFailed results e \<Rightarrow> filter (missing_columns cfg) results)"

text \<open>
  The promise \<open>getData\<close> returns; \<open>None\<close> is a promise that is never settled, as neither
  \<open>resolve\<close> nor \<open>reject\<close> is called when the read stream fails.
\<close>

definition getData :: "config \<Rightarrow> csv_stream \<Rightarrow> row list promise option" where
  "getData cfg stream =
     (case stream of
        Ended results \<Rightarrow>
          if length results = 0 then Some (Rejected NoDataFound) else Some (Resolved results)
      | Errored results e \<Rightarrow> Some (Rejected (StreamError e))
      | ReadFailed results e \<Rightarrow> None)"

section \<open>Main execution (index.js, lines 39-87)\<close>

text \<open>
  The two status strings of line 64 are emoji; they are the constants \<open>CHECK_MARK\<close> and
  \<open>CROSS_MARK\<close>. \<open>Array.prototype.sort\<close> is stable; it is the insertion sort by the
  comparator below.
\<close>

datatype emoji = CHECK_MARK | CROSS_MARK

record formatted = outcome +
  status :: emoji

definition format_url :: "outcome \<Rightarrow> formatted" where
  "format_url url =
     outcome.extend url (formatted.fields (if is_valid url then CHECK_MARK else CROSS_MARK))"

definition compare_urls :: "env \<Rightarrow> formatted \<Rightarrow> formatted \<Rightarrow> int" where
  "compare_urls env a b =
     (if is_valid a \<noteq> is_valid b then (if is_valid a then 1 else - 1)
      else localeCompare env (source a) (source b))"

fun insert_sorted :: "('a \<Rightarrow> 'a \<Rightarrow> int) \<Rightarrow> 'a \<Rightarrow> 'a list \<Rightarrow> 'a list" where
  "insert_sorted cmp x [] = [x]"
| "insert_sorted cmp x (y # ys) =
     (if cmp x y \<le> 0 then x # y # ys else y # insert_sorted cmp x ys)"

definition Array_sort :: "('a \<Rightarrow> 'a \<Rightarrow> int) \<Rightarrow> 'a list \<Rightarrow> 'a list" where
  "Array_sort cmp xs = foldr (insert_sorted cmp) xs []"

definition empty_report :: "outcome report" where
  "empty_report = \<lparr> result = \<lparr> valid = 0, invalid = 0, total = 0 \<rparr>, urls = [] \<rparr>"

text \<open>
  The final report is built from the state of \<open>report\<close> at the time \<open>processUrls\<close> returns.
  Selecting the input file and writing the report file are taken to succeed. The process
  ends with status 1 through \<open>process.exit(1)\<close> in the \<open>catch\<close>, and with status 0 after the
  report is written. \<open>main\<close> is \<open>None\<close> when it reaches neither end: the promise of
  \<open>getData\<close> is never settled (the read stream's error, which nothing handles, then ends
  the process from outside \<open>main\<close>, whose \<open>catch\<close> does not run), or the loop of
  \<open>processUrls\<close> does not end.
\<close>

definition finalReport :: "env \<Rightarrow> outcome report \<Rightarrow> formatted report" where
  "finalReport env report =
     (let formattedUrls = Array_sort (compare_urls env) (map format_url (urls report))
      in \<lparr> result = result report, urls = formattedUrls \<rparr>)"

record exit =
  exit_status :: nat
  main_error :: "error option"
  written :: "formatted report option"
  network :: "event list"

definition main :: "config \<Rightarrow> env \<Rightarrow> csv_stream \<Rightarrow> nat \<Rightarrow> exit option" where
  "main cfg env stream t =
     (case getData cfg stream of
        None \<Rightarrow> None
      | Some (Rejected e) \<Rightarrow>
          Some \<lparr> exit_status = 1, main_error = Some e, written = None, network = [] \<rparr>
      | Some (Resolved data) \<Rightarrow>
          (case processUrls cfg env data t of
             None \<Rightarrow> None
           | Some r \<Rightarrow>
               Some \<lparr> exit_status = 0, main_error = None,
                      written = Some (finalReport env (report_at empty_report (tasks r) (now r))),
                      network = activity (tasks r) \<rparr>))"

section \<open>Vocabulary of the properties\<close>

text \<open>
  For a fetch started at \<open>t\<close> whose requests are answered by \<open>rq\<close>: \<open>attempt_at cfg rq t k\<close>
  is the time of its request number \<open>k\<close> (from 0) when the earlier ones have failed and
  been retried, \<open>transient_failures cfg rq t n\<close> says that the first \<open>n\<close> requests fail with
  a transient error, and \<open>retries cfg rq h opts t n\<close> are these \<open>n\<close> requests, each followed
  by its backoff wait.
\<close>

fun latency :: "reply \<Rightarrow> nat" where
  "latency (Responded ms sc loc) = ms"
| "latency (Failed ms c) = ms"

fun attempt_at :: "config \<Rightarrow> (nat \<Rightarrow> reply) \<Rightarrow> nat \<Rightarrow> nat \<Rightarrow> nat" where
  "attempt_at cfg rq t 0 = t"
| "attempt_at cfg rq t (Suc k) =
     attempt_at cfg rq t k + latency (rq (attempt_at cfg rq t k)) + INITIAL_BACKOFF cfg * 2 ^ k"

fun transient_failures :: "config \<Rightarrow> (nat \<Rightarrow> reply) \<Rightarrow> nat \<Rightarrow> nat \<Rightarrow> bool" where
  "transient_failures cfg rq t 0 = True"
| "transient_failures cfg rq t (Suc n) =
     (transient_failures cfg rq t n \<and>
      (case rq (attempt_at cfg rq t n) of Failed ms c \<Rightarrow> transient c
                                        | Responded ms sc loc \<Rightarrow> False))"

fun retries :: "config \<Rightarrow> (nat \<Rightarrow> reply) \<Rightarrow> handler \<Rightarrow> options \<Rightarrow> nat \<Rightarrow> nat \<Rightarrow> event list" where
  "retries cfg rq h opts t 0 = []"
| "retries cfg rq h opts t (Suc n) =
     retries cfg rq h opts t n @
       [Request (attempt_at cfg rq t n) h opts,
        SetTimeout (attempt_at cfg rq t n + latency (rq (attempt_at cfg rq t n)))
          (INITIAL_BACKOFF cfg * 2 ^ n)]"

fun is_request :: "event \<Rightarrow> bool" where
  "is_request (Request t h opts) = True"
| "is_request e = False"

text \<open>
  \<open>at_limit src dest maxRedirections rl rc hops r\<close>: the resolution \<open>r\<close> has stopped at the
  hop limit after appending \<open>hops\<close> to the chain \<open>rl\<close> of \<open>rc\<close> hops it was entered with.
\<close>

definition at_limit ::
  "string \<Rightarrow> string \<Rightarrow> nat \<Rightarrow> redirect list \<Rightarrow> nat \<Rightarrow> redirect list \<Rightarrow> outcome async \<Rightarrow> bool" where
  "at_limit src dest maxRedirections rl rc hops r =
     (hops \<noteq> [] \<and>
      settled r = Resolved
        \<lparr> code = rcode (last hops), source = src, dest_wanted = dest,
          dest_actual = Some (rlocation (last hops)), redirectCounter = rc + length hops,
          redirectsList = rl @ hops, is_valid = False \<rparr> \<and>
      fetched_urls (trace r) = map rlocation (butlast hops) \<and>
      maxRedirections \<le> rc + length hops \<and>
      (length hops = 1 \<or> rc + length hops \<le> maxRedirections))"

text \<open>
  \<open>redirects_on cfg env u t n\<close>: the \<open>n\<close> fetches that start with \<open>u\<close> at time \<open>t\<close>, each
  of the \<open>Location\<close> the one before was answered with and started when that answer
  arrived, are all answered with a non-empty \<open>Location\<close>. Nothing is said of what comes
  after these \<open>n\<close> fetches.
\<close>

fun redirects_on :: "config \<Rightarrow> env \<Rightarrow> string \<Rightarrow> nat \<Rightarrow> nat \<Rightarrow> bool" where
  "redirects_on cfg env u t 0 = True"
| "redirects_on cfg env u t (Suc n) =
     (case settled (getHeaders cfg env u 0 t) of
        Rejected e \<Rightarrow> False
      | Resolved h \<Rightarrow>
          (case location h of
             None \<Rightarrow> False
           | Some l \<Rightarrow>
               l \<noteq> [] \<and> redirects_on cfg env l (settled_at (getHeaders cfg env u 0 t)) n))"

text \<open>The counting invariant of the report.\<close>

definition counts_agree :: "'u report \<Rightarrow> bool" where
  "counts_agree report =
     (total (result report) = valid (result report) + invalid (result report) \<and>
      total (result report) = length (urls report))"

text \<open>
  A started callback is well formed when it belongs to a row of the input and is what
  \<open>chunk_callback\<close> yields for that row at its start time.
\<close>

definition started_well :: "config \<Rightarrow> env \<Rightarrow> row list \<Rightarrow> started \<Rightarrow> bool" where
  "started_well cfg env data s =
     (row_index s < length data \<and>
      task s = chunk_callback cfg env (data ! row_index s) (started_at s))"

text \<open>
  The window of a callback is the chunk its row belongs to. \<open>windows_in_order\<close> says that
  the callbacks of a window start together, that a later window starts at least the chunk
  delay after an earlier one, and, when no resolution of the earlier window was rejected,
  at least the chunk delay after each of them settled.
\<close>

definition window :: "config \<Rightarrow> started \<Rightarrow> nat" where
  "window cfg s = row_index s div CHUNK_SIZE cfg"

definition no_rejection_in_window :: "config \<Rightarrow> started list \<Rightarrow> started \<Rightarrow> bool" where
  "no_rejection_in_window cfg ts s =
     list_all (\<lambda>u. window cfg u \<noteq> window cfg s \<or> rejection (task u) = None) ts"

definition windows_in_order :: "config \<Rightarrow> started list \<Rightarrow> bool" where
  "windows_in_order cfg ts =
     (\<forall>s\<in>set ts. \<forall>s'\<in>set ts.
        (window cfg s = window cfg s' \<longrightarrow> started_at s = started_at s') \<and>
        (window cfg s < window cfg s' \<longrightarrow>
           started_at s + CHUNK_DELAY cfg \<le> started_at s' \<and>
           (no_rejection_in_window cfg ts s \<longrightarrow>
              fulfilled_at (started_at s) (task s) + CHUNK_DELAY cfg \<le> started_at s')))"

section \<open>Scenarios\<close>

text \<open>
  Concrete platforms and inputs, on which the properties below are exercised.
  \<open>simple_URL\<close> parses the absolute http and https URLs of the scenarios.
\<close>

definition url_after :: "string \<Rightarrow> string \<Rightarrow> url" where
  "url_after proto rest =
     (let host = takeWhile (\<lambda>c. c \<noteq> CHR ''/'') rest;
          p = dropWhile (\<lambda>c. c \<noteq> CHR ''/'') rest
      in \<lparr> protocol = proto, hostname = host,
           pathname = (if takeWhile (\<lambda>c. c \<noteq> CHR ''?'') p = [] then ''/''
                       else takeWhile (\<lambda>c. c \<noteq> CHR ''?'') p),
           search = dropWhile (\<lambda>c. c \<noteq> CHR ''?'') p \<rparr>)"

definition simple_URL :: "string \<Rightarrow> url option" where
  "simple_URL s =
     (if take 8 s = ''https://'' \<and> drop 8 s \<noteq> [] then Some (url_after ''https:'' (drop 8 s))
      else if take 7 s = ''http://'' \<and> drop 7 s \<noteq> [] then Some (url_after ''http:'' (drop 7 s))
      else None)"

definition flaky_env :: env where
  "flaky_env = \<lparr> URL = simple_URL,
       request = (\<lambda>h opts t. if t = 0 then Failed 5 ''ECONNRESET''
                              else if t = 1005 then Failed 5 ''ENOMEM''
                              else Responded 7 200 None),
       localeCompare = (\<lambda>a b. 0) \<rparr>"

definition down_env :: "string \<Rightarrow> env" where
  "down_env c = \<lparr> URL = simple_URL, request = (\<lambda>h opts t. Failed 5 c),
       localeCompare = (\<lambda>a b. 0) \<rparr>"

definition old_url :: url where
  "old_url = \<lparr> protocol = ''http:'', hostname = ''a.example'', pathname = ''/old'', search = [] \<rparr>"

text \<open>
  A URL that redirects to itself for ever, and a server that answers every request with
  status 200 and a \<open>Location\<close>.
\<close>

definition loop_env :: env where
  "loop_env = \<lparr> URL = simple_URL,
       request = (\<lambda>h opts t. Responded 10 301 (Some ''http://a.example/loop'')),
       localeCompare = (\<lambda>a b. 0) \<rparr>"


text \<open>
  A chain of three redirects that ends: \<open>/a\<close> leads to \<open>/b\<close>, \<open>/b\<close> to \<open>/c\<close>, \<open>/c\<close> to \<open>/d\<close>,
  and \<open>/d\<close> is answered with status 200 and no \<open>Location\<close>.
\<close>

definition chain_env :: env where
  "chain_env = \<lparr> URL = simple_URL,
       request = (\<lambda>h opts t.
         if opt_path opts = ''/a'' then Responded 10 301 (Some ''http://a.example/b'')
         else if opt_path opts = ''/b'' then Responded 10 302 (Some ''http://a.example/c'')
         else if opt_path opts = ''/c'' then Responded 10 301 (Some ''http://a.example/d'')
         else Responded 10 200 None),
       localeCompare = (\<lambda>a b. 0) \<rparr>"

text \<open>
  A site with a permanent redirect (\<open>a.example\<close>), a temporary one (\<open>b.example\<close>), a slow
  permanent one (\<open>slow.example\<close>) and a host that does not resolve (\<open>gone.example\<close>);
  \<open>lex_compare\<close> compares strings character by character. \<open>site_data\<close> is an input of nine
  rows, one more than a chunk of the default configuration; the other constants are what
  the run on it produces.
\<close>

fun lex_compare :: "string \<Rightarrow> string \<Rightarrow> int" where
  "lex_compare [] [] = 0"
| "lex_compare [] (y # ys) = - 1"
| "lex_compare (x # xs) [] = 1"
| "lex_compare (x # xs) (y # ys) =
     (if (of_char x :: nat) < of_char y then - 1
      else if (of_char y :: nat) < of_char x then 1
      else lex_compare xs ys)"

definition site_env :: env where
  "site_env = \<lparr> URL = simple_URL,
       request = (\<lambda>h opts t.
         if opt_hostname opts = ''a.example'' \<and> opt_path opts = ''/old''
           then Responded 10 301 (Some ''https://a.example/new'')
         else if opt_hostname opts = ''b.example'' \<and> opt_path opts = ''/old''
           then Responded 10 302 (Some ''https://b.example/new'')
         else if opt_hostname opts = ''slow.example'' \<and> opt_path opts = ''/old''
           then Responded 5000 301 (Some ''https://slow.example/new'')
         else if opt_path opts = ''/new'' then Responded 10 200 None
         else Failed 10 ''ENOTFOUND''),
       localeCompare = lex_compare \<rparr>"

definition GET :: "string \<Rightarrow> string \<Rightarrow> string \<Rightarrow> options" where
  "GET proto host path =
     \<lparr> opt_protocol = proto, opt_hostname = host, opt_method = ''GET'', opt_path = path,
       opt_timeout = 10000 \<rparr>"

definition a_outcome :: "string \<Rightarrow> outcome" where
  "a_outcome dest =
     \<lparr> code = 200, source = ''http://a.example/old'', dest_wanted = dest,
       dest_actual = Some ''https://a.example/new'', redirectCounter = 1,
       redirectsList = [\<lparr> rlocation = ''https://a.example/new'', rcode = 301 \<rparr>],
       is_valid = (''https://a.example/new'' = dest) \<rparr>"

definition b_outcome :: outcome where
  "b_outcome =
     \<lparr> code = 200, source = ''http://b.example/old'', dest_wanted = ''https://b.example/new'',
       dest_actual = Some ''https://b.example/new'', redirectCounter = 1,
       redirectsList = [\<lparr> rlocation = ''https://b.example/new'', rcode = 302 \<rparr>],
       is_valid = False \<rparr>"

definition slow_outcome :: outcome where
  "slow_outcome =
     \<lparr> code = 200, source = ''http://slow.example/old'',
       dest_wanted = ''https://slow.example/new'',
       dest_actual = Some ''https://slow.example/new'', redirectCounter = 1,
       redirectsList = [\<lparr> rlocation = ''https://slow.example/new'', rcode = 301 \<rparr>],
       is_valid = True \<rparr>"

definition direct_outcome :: outcome where
  "direct_outcome =
     \<lparr> code = 200, source = ''https://a.example/new'', dest_wanted = ''https://a.example/new'',
       dest_actual = Some ''https://a.example/new'', redirectCounter = 0,
       redirectsList = [], is_valid = False \<rparr>"

definition resolved_a :: "string \<Rightarrow> nat \<Rightarrow> outcome async" where
  "resolved_a dest t =
     \<lparr> settled = Resolved (a_outcome dest), settled_at = t + 20,
       trace = [GetHeaders t ''http://a.example/old'',
                Request t http (GET ''http:'' ''a.example'' ''/old''),
                GetHeaders (t + 10) ''https://a.example/new'',
                Request (t + 10) https (GET ''https:'' ''a.example'' ''/new'')] \<rparr>"

definition resolved_b :: "nat \<Rightarrow> outcome async" where
  "resolved_b t =
     \<lparr> settled = Resolved b_outcome, settled_at = t + 20,
       trace = [GetHeaders t ''http://b.example/old'',
                Request t http (GET ''http:'' ''b.example'' ''/old''),
                GetHeaders (t + 10) ''https://b.example/new'',
                Request (t + 10) https (GET ''https:'' ''b.example'' ''/new'')] \<rparr>"

definition resolved_slow :: "nat \<Rightarrow> outcome async" where
  "resolved_slow t =
     \<lparr> settled = Resolved slow_outcome, settled_at = t + 5010,
       trace = [GetHeaders t ''http://slow.example/old'',
                Request t http (GET ''http:'' ''slow.example'' ''/old''),
                GetHeaders (t + 5000) ''https://slow.example/new'',
                Request (t + 5000) https (GET ''https:'' ''slow.example'' ''/new'')] \<rparr>"

definition resolved_direct :: "nat \<Rightarrow> outcome async" where
  "resolved_direct t =
     \<lparr> settled = Resolved direct_outcome, settled_at = t + 10,
       trace = [GetHeaders t ''https://a.example/new'',
                Request t https (GET ''https:'' ''a.example'' ''/new'')] \<rparr>"

definition rejected_gone :: "nat \<Rightarrow> outcome async" where
  "rejected_gone t =
     \<lparr> settled = Rejected (NetworkError ''ENOTFOUND''), settled_at = t + 10,
       trace = [GetHeaders t ''http://gone.example/old'',
                Request t http (GET ''http:'' ''gone.example'' ''/old'')] \<rparr>"

definition site_data :: "row list" where
  "site_data =
     [[''src'' \<mapsto> ''http://gone.example/old'', ''destination'' \<mapsto> ''https://gone.example/new''],
      [''src'' \<mapsto> ''http://slow.example/old'', ''destination'' \<mapsto> ''https://slow.example/new''],
      [''src'' \<mapsto> ''http://a.example/old'', ''destination'' \<mapsto> ''https://a.example/new''],
      [''src'' \<mapsto> ''http://b.example/old'', ''destination'' \<mapsto> ''https://b.example/new''],
      [''destination'' \<mapsto> ''https://a.example/new''],
      [''src'' \<mapsto> ''http://a.example/old'', ''destination'' \<mapsto> ''''],
      [''src'' \<mapsto> ''http://a.example/old'', ''destination'' \<mapsto> ''https://a.example/other''],
      [''src'' \<mapsto> ''https://a.example/new'', ''destination'' \<mapsto> ''https://a.example/new''],
      [''src'' \<mapsto> ''http://a.example/old'', ''destination'' \<mapsto> ''https://a.example/new'']]"

definition site_tasks :: "started list" where
  "site_tasks =
     [\<lparr> row_index = 0, started_at = 0, task = Checked (rejected_gone 0) \<rparr>,
      \<lparr> row_index = 1, started_at = 0, task = Checked (resolved_slow 0) \<rparr>,
      \<lparr> row_index = 2, started_at = 0, task = Checked (resolved_a ''https://a.example/new'' 0) \<rparr>,
      \<lparr> row_index = 3, started_at = 0, task = Checked (resolved_b 0) \<rparr>,
      \<lparr> row_index = 4, started_at = 0, task = Skipped \<rparr>,
      \<lparr> row_index = 5, started_at = 0, task = Skipped \<rparr>,
      \<lparr> row_index = 6, started_at = 0, task = Checked (resolved_a ''https://a.example/other'' 0) \<rparr>,
      \<lparr> row_index = 7, started_at = 0, task = Checked (resolved_direct 0) \<rparr>,
      \<lparr> row_index = 8, started_at = 2010,
        task = Checked (resolved_a ''https://a.example/new'' 2010) \<rparr>]"

definition site_report :: "outcome report" where
  "site_report =
     \<lparr> result = \<lparr> valid = 2, invalid = 3, total = 5 \<rparr>,
       urls = [direct_outcome, a_outcome ''https://a.example/new'', b_outcome,
               a_outcome ''https://a.example/other'', a_outcome ''https://a.example/new''] \<rparr>"

definition marked :: "outcome \<Rightarrow> emoji \<Rightarrow> formatted" where
  "marked url m = outcome.extend url (formatted.fields m)"

definition site_final :: "formatted report" where
  "site_final =
     \<lparr> result = \<lparr> valid = 2, invalid = 3, total = 5 \<rparr>,
       urls = [marked (a_outcome ''https://a.example/other'') CROSS_MARK,
               marked b_outcome CROSS_MARK,
               marked direct_outcome CROSS_MARK,
               marked (a_outcome ''https://a.example/new'') CHECK_MARK,
               marked (a_outcome ''https://a.example/new'') CHECK_MARK] \<rparr>"

text \<open>
  Two rows of one chunk: a source that is no absolute URL, and the slow permanent
  redirect; then the second of them alone. \<open>rejected_malformed\<close> is the resolution of the
  first row, and the tasks are the callbacks of the two runs.
\<close>

definition malformed_data :: "row list" where
  "malformed_data =
     [[''src'' \<mapsto> ''a.example/old'', ''destination'' \<mapsto> ''https://a.example/new''],
      [''src'' \<mapsto> ''http://slow.example/old'', ''destination'' \<mapsto> ''https://slow.example/new'']]"

definition slow_data :: "row list" where
  "slow_data =
     [[''src'' \<mapsto> ''http://slow.example/old'', ''destination'' \<mapsto> ''https://slow.example/new'']]"

definition rejected_malformed :: "nat \<Rightarrow> outcome async" where
  "rejected_malformed t =
     \<lparr> settled = Rejected (InvalidURL ''a.example/old''), settled_at = t,
       trace = [GetHeaders t ''a.example/old''] \<rparr>"

definition malformed_tasks :: "started list" where
  "malformed_tasks =
     [\<lparr> row_index = 0, started_at = 0, task = Checked (rejected_malformed 0) \<rparr>,
      \<lparr> row_index = 1, started_at = 0, task = Checked (resolved_slow 0) \<rparr>]"

definition slow_tasks :: "started list" where
  "slow_tasks = [\<lparr> row_index = 0, started_at = 0, task = Checked (resolved_slow 0) \<rparr>]"

text \<open>A file none of whose rows is usable: each lacks a column or has an empty field.\<close>

definition unusable_data :: "row list" where
  "unusable_data =
     [[''destination'' \<mapsto> ''https://a.example/new''],
      [''src'' \<mapsto> ''http://a.example/old'', ''destination'' \<mapsto> '''']]"

text \<open>Nine rows none of which fails, and the callbacks of the run on them.\<close>

definition calm_data :: "row list" where
  "calm_data =
     [[''src'' \<mapsto> ''http://slow.example/old'', ''destination'' \<mapsto> ''https://slow.example/new''],
      [''src'' \<mapsto> ''http://a.example/old'', ''destination'' \<mapsto> ''https://a.example/new''],
      [''src'' \<mapsto> ''http://b.example/old'', ''destination'' \<mapsto> ''https://b.example/new''],
      [''src'' \<mapsto> ''https://a.example/new'', ''destination'' \<mapsto> ''https://a.example/new''],
      [''src'' \<mapsto> ''http://a.example/old'', ''destination'' \<mapsto> ''https://a.example/new''],
      [''src'' \<mapsto> ''http://a.example/old'', ''destination'' \<mapsto> ''https://a.example/new''],
      [''src'' \<mapsto> ''http://a.example/old'', ''destination'' \<mapsto> ''https://a.example/new''],
      [''src'' \<mapsto> ''http://a.example/old'', ''destination'' \<mapsto> ''https://a.example/new''],
      [''src'' \<mapsto> ''http://a.example/old'', ''destination'' \<mapsto> ''https://a.example/new'']]"

definition calm_tasks :: "started list" where
  "calm_tasks =
     [\<lparr> row_index = 0, started_at = 0, task = Checked (resolved_slow 0) \<rparr>,
      \<lparr> row_index = 1, started_at = 0, task = Checked (resolved_a ''https://a.example/new'' 0) \<rparr>,
      \<lparr> row_index = 2, started_at = 0, task = Checked (resolved_b 0) \<rparr>,
      \<lparr> row_index = 3, started_at = 0, task = Checked (resolved_direct 0) \<rparr>,
      \<lparr> row_index = 4, started_at = 0, task = Checked (resolved_a ''https://a.example/new'' 0) \<rparr>,
      \<lparr> row_index = 5, started_at = 0, task = Checked (resolved_a ''https://a.example/new'' 0) \<rparr>,
      \<lparr> row_index = 6, started_at = 0, task = Checked (resolved_a ''https://a.example/new'' 0) \<rparr>,
      \<lparr> row_index = 7, started_at = 0, task = Checked (resolved_a ''https://a.example/new'' 0) \<rparr>,
      \<lparr> row_index = 8, started_at = 7010,
        task = Checked (resolved_a ''https://a.example/new'' 7010) \<rparr>]"

section \<open>Properties\<close>

subsection \<open>The validity policy\<close>

text \<open>
  Claim C1. With the permanent-redirect codes 301 and 308 of the configuration,
  \<open>isRedirectValid\<close> returns true exactly when the final URL is the expected destination,
  the hop count is 1, the chain has a first hop whose code is 301 or 308, and the final
  status code is 200. A wrong final URL, a hop count of 0 or of 2, a first hop with code
  302, or a final status of 204 each make it false, whatever the other arguments are.
\<close>

theorem isRedirectValid_iff_conditions:
  assumes "PERMANENT_REDIRECT cfg = [301, 308]"
  shows "(isRedirectValid cfg finalURL expectedDestination chain hopCount finalStatusCode \<longleftrightarrow>
            finalURL = expectedDestination \<and> hopCount = 1 \<and>
            (\<exists>hop rest. chain = hop # rest \<and> (rcode hop = 301 \<or> rcode hop = 308)) \<and>
            finalStatusCode = 200) \<and>
         (finalURL \<noteq> expectedDestination \<longrightarrow>
            \<not> isRedirectValid cfg finalURL expectedDestination chain hopCount finalStatusCode) \<and>
         (hopCount = 0 \<or> hopCount = 2 \<longrightarrow>
            \<not> isRedirectValid cfg finalURL expectedDestination chain hopCount finalStatusCode) \<and>
         ((\<exists>hop rest. chain = hop # rest \<and> rcode hop = 302) \<longrightarrow>
            \<not> isRedirectValid cfg finalURL expectedDestination chain hopCount finalStatusCode) \<and>
         (finalStatusCode = 204 \<longrightarrow>
            \<not> isRedirectValid cfg finalURL expectedDestination chain hopCount finalStatusCode)"
proof -
  have first: "map_option rcode (at_index chain 0) = Some c \<longleftrightarrow>
                 (\<exists>hop rest. chain = hop # rest \<and> rcode hop = c)" for c
    by (cases chain) simp_all
  have iff: "isRedirectValid cfg finalURL expectedDestination chain hopCount finalStatusCode \<longleftrightarrow>
            finalURL = expectedDestination \<and> hopCount = 1 \<and>
            (\<exists>hop rest. chain = hop # rest \<and> (rcode hop = 301 \<or> rcode hop = 308)) \<and>
            finalStatusCode = 200"
    unfolding isRedirectValid_def using assms first [of 301] first [of 308]
    by (simp add: numeral_2_eq_2) blast
  show ?thesis
    unfolding iff by auto
qed

theorem isRedirectValid_iff_conditions_witness:
  "isRedirectValid CONFIG ''https://a.example/new'' ''https://a.example/new''
     [\<lparr> rlocation = ''https://a.example/new'', rcode = 301 \<rparr>] 1 200 \<and>
   \<not> isRedirectValid CONFIG ''https://a.example/other'' ''https://a.example/new''
     [\<lparr> rlocation = ''https://a.example/other'', rcode = 301 \<rparr>] 1 200 \<and>
   \<not> isRedirectValid CONFIG ''https://a.example/new'' ''https://a.example/new'' [] 0 200 \<and>
   \<not> isRedirectValid CONFIG ''https://a.example/new'' ''https://a.example/new''
     [\<lparr> rlocation = ''https://a.example/mid'', rcode = 301 \<rparr>,
      \<lparr> rlocation = ''https://a.example/new'', rcode = 301 \<rparr>] 2 200 \<and>
   \<not> isRedirectValid CONFIG ''https://a.example/new'' ''https://a.example/new''
     [\<lparr> rlocation = ''https://a.example/new'', rcode = 302 \<rparr>] 1 200 \<and>
   \<not> isRedirectValid CONFIG ''https://a.example/new'' ''https://a.example/new''
     [\<lparr> rlocation = ''https://a.example/new'', rcode = 308 \<rparr>] 1 204"
proof -
  have pr: "PERMANENT_REDIRECT CONFIG = [301, 308]"
    by (simp add: CONFIG_def)
  note R = isRedirectValid_iff_conditions [OF pr]
  show ?thesis
    by (simp add: R)
qed

subsection \<open>Retry with exponential backoff\<close>

lemma getHeaders_unroll:
  assumes p: "URL env u = Some p"
    and rq: "rq = request env (protocolHandler p) (request_options cfg p)"
  shows "n \<le> MAX_RETRIES cfg \<Longrightarrow> transient_failures cfg rq t n \<Longrightarrow>
         getHeaders cfg env u 0 t =
           (getHeaders cfg env u n (attempt_at cfg rq t n))
             \<lparr> trace := retries cfg rq (protocolHandler p) (request_options cfg p) t n @
                         trace (getHeaders cfg env u n (attempt_at cfg rq t n)) \<rparr>"
proof (induction n)
  case 0
  show ?case by simp
next
  case (Suc n)
  from Suc.prems obtain ms c where
    f: "rq (attempt_at cfg rq t n) = Failed ms c" and tr: "transient c"
    by (auto split: reply.splits)
  have lt: "n < MAX_RETRIES cfg" using Suc.prems by simp
  have step: "getHeaders cfg env u n (attempt_at cfg rq t n) =
      (getHeaders cfg env u (Suc n) (attempt_at cfg rq t (Suc n)))
        \<lparr> trace := Request (attempt_at cfg rq t n) (protocolHandler p) (request_options cfg p)
             # SetTimeout (attempt_at cfg rq t n + ms) (INITIAL_BACKOFF cfg * 2 ^ n)
             # trace (getHeaders cfg env u (Suc n) (attempt_at cfg rq t (Suc n))) \<rparr>"
    using p f tr lt rq
    by (subst getHeaders.simps) (simp add: Let_def)
  have "getHeaders cfg env u 0 t =
           (getHeaders cfg env u n (attempt_at cfg rq t n))
             \<lparr> trace := retries cfg rq (protocolHandler p) (request_options cfg p) t n @
                         trace (getHeaders cfg env u n (attempt_at cfg rq t n)) \<rparr>"
    using Suc.IH Suc.prems by simp
  also have "\<dots> = (getHeaders cfg env u (Suc n) (attempt_at cfg rq t (Suc n)))
             \<lparr> trace := retries cfg rq (protocolHandler p) (request_options cfg p) t (Suc n) @
                         trace (getHeaders cfg env u (Suc n) (attempt_at cfg rq t (Suc n))) \<rparr>"
    by (simp add: step f)
  finally show ?case .
qed

lemma getHeaders_requests_bound:
  "length (filter is_request (trace (getHeaders cfg env u rc t))) \<le> Suc (MAX_RETRIES cfg - rc)"
proof (induction cfg env u rc t rule: getHeaders.induct)
  case (1 cfg env urlToParse retryCount t)
  show ?case
  proof (cases "URL env urlToParse")
    case None
    then show ?thesis by (subst getHeaders.simps) simp
  next
    case (Some p)
    show ?thesis
    proof (cases "request env (protocolHandler p) (request_options cfg p) t")
      case (Responded ms sc loc)
      with Some show ?thesis by (subst getHeaders.simps) simp
    next
      case (Failed ms c)
      show ?thesis
      proof (cases "transient c \<and> retryCount < MAX_RETRIES cfg")
        case True
        from "1.IH" [OF Some Failed True refl]
        have "length (filter is_request (trace (getHeaders cfg env urlToParse (retryCount + 1)
                (t + ms + INITIAL_BACKOFF cfg * 2 ^ retryCount))))
              \<le> Suc (MAX_RETRIES cfg - (retryCount + 1))" by simp
        with Some Failed True show ?thesis
          by (subst getHeaders.simps) (auto simp: Let_def)
      next
        case False
        with Some Failed show ?thesis by (subst getHeaders.simps) auto
      qed
    qed
  qed
qed

text \<open>
  Claim C3. A fetch of a parseable URL issues the same request (same handler, same options)
  at each attempt. If its first \<open>n \<le> MAX_RETRIES\<close> requests fail with \<open>ECONNRESET\<close> or
  \<open>ENOMEM\<close> and the next one is answered, the fetch resolves with that answer, having
  waited \<open>INITIAL_BACKOFF * 2 ^ k\<close> after failure number \<open>k\<close> (from 0). If \<open>MAX_RETRIES\<close>
  transient failures are followed by one more failure, or if a failure is not transient,
  the fetch rejects with that error. At most \<open>MAX_RETRIES + 1\<close> requests are issued.
\<close>

theorem getHeaders_retry_backoff:
  assumes p: "URL env u = Some p"
    and h: "h = protocolHandler p" and opts: "opts = request_options cfg p"
    and rq: "rq = request env h opts"
  shows "(\<forall>n ms sc loc. n \<le> MAX_RETRIES cfg \<and> transient_failures cfg rq t n \<and>
             rq (attempt_at cfg rq t n) = Responded ms sc loc \<longrightarrow>
           getHeaders cfg env u 0 t =
             \<lparr> settled = Resolved \<lparr> statusCode = sc,
                                     location = (if truthy loc then loc else None) \<rparr>,
               settled_at = attempt_at cfg rq t n + ms,
               trace = retries cfg rq h opts t n @ [Request (attempt_at cfg rq t n) h opts] \<rparr>) \<and>
         (\<forall>ms c. transient_failures cfg rq t (MAX_RETRIES cfg) \<and>
             rq (attempt_at cfg rq t (MAX_RETRIES cfg)) = Failed ms c \<longrightarrow>
           getHeaders cfg env u 0 t =
             \<lparr> settled = Rejected (NetworkError c),
               settled_at = attempt_at cfg rq t (MAX_RETRIES cfg) + ms,
               trace = retries cfg rq h opts t (MAX_RETRIES cfg) @
                         [Request (attempt_at cfg rq t (MAX_RETRIES cfg)) h opts] \<rparr>) \<and>
         (\<forall>n ms c. n \<le> MAX_RETRIES cfg \<and> transient_failures cfg rq t n \<and>
             rq (attempt_at cfg rq t n) = Failed ms c \<and> \<not> transient c \<longrightarrow>
           getHeaders cfg env u 0 t =
             \<lparr> settled = Rejected (NetworkError c),
               settled_at = attempt_at cfg rq t n + ms,
               trace = retries cfg rq h opts t n @ [Request (attempt_at cfg rq t n) h opts] \<rparr>) \<and>
         length (filter is_request (trace (getHeaders cfg env u 0 t))) \<le> MAX_RETRIES cfg + 1"
proof -
  have rq': "rq = request env (protocolHandler p) (request_options cfg p)"
    using h opts rq by simp
  note unroll = getHeaders_unroll [OF p rq', folded h opts]
  have a: "getHeaders cfg env u 0 t =
             \<lparr> settled = Resolved \<lparr> statusCode = sc,
                                     location = (if truthy loc then loc else None) \<rparr>,
               settled_at = attempt_at cfg rq t n + ms,
               trace = retries cfg rq h opts t n @ [Request (attempt_at cfg rq t n) h opts] \<rparr>"
    if "n \<le> MAX_RETRIES cfg" "transient_failures cfg rq t n"
       "rq (attempt_at cfg rq t n) = Responded ms sc loc" for n ms sc loc
  proof -
    have "getHeaders cfg env u n (attempt_at cfg rq t n) =
            \<lparr> settled = Resolved \<lparr> statusCode = sc,
                                     location = (if truthy loc then loc else None) \<rparr>,
              settled_at = attempt_at cfg rq t n + ms,
              trace = [Request (attempt_at cfg rq t n) h opts] \<rparr>"
      using p that(3) h opts rq by (subst getHeaders.simps) simp
    then show ?thesis using unroll [OF that(1,2)] by simp
  qed
  have b: "getHeaders cfg env u 0 t =
             \<lparr> settled = Rejected (NetworkError c),
               settled_at = attempt_at cfg rq t n + ms,
               trace = retries cfg rq h opts t n @ [Request (attempt_at cfg rq t n) h opts] \<rparr>"
    if "n \<le> MAX_RETRIES cfg" "transient_failures cfg rq t n"
       "rq (attempt_at cfg rq t n) = Failed ms c" "\<not> transient c \<or> n = MAX_RETRIES cfg"
    for n ms c
  proof -
    have "getHeaders cfg env u n (attempt_at cfg rq t n) =
            \<lparr> settled = Rejected (NetworkError c),
              settled_at = attempt_at cfg rq t n + ms,
              trace = [Request (attempt_at cfg rq t n) h opts] \<rparr>"
      using p that(3,4) h opts rq by (subst getHeaders.simps) auto
    then show ?thesis using unroll [OF that(1,2)] by simp
  qed
  have c: "length (filter is_request (trace (getHeaders cfg env u 0 t))) \<le> MAX_RETRIES cfg + 1"
    using getHeaders_requests_bound [of cfg env u 0 t] by simp
  show ?thesis
    using a b c by blast
qed

lemma simple_URL_old: "simple_URL ''http://a.example/old'' = Some old_url"
  by code_simp


theorem getHeaders_retry_backoff_witness:
  "settled (getHeaders CONFIG flaky_env ''http://a.example/old'' 0 0) =
     Resolved \<lparr> statusCode = 200, location = None \<rparr> \<and>
   settled_at (getHeaders CONFIG flaky_env ''http://a.example/old'' 0 0) = 3017 \<and>
   trace (getHeaders CONFIG flaky_env ''http://a.example/old'' 0 0) =
     [Request 0 http (request_options CONFIG old_url), SetTimeout 5 1000,
      Request 1005 http (request_options CONFIG old_url), SetTimeout 1010 2000,
      Request 3010 http (request_options CONFIG old_url)] \<and>
   settled (getHeaders CONFIG (down_env ''ECONNRESET'') ''http://a.example/old'' 0 0) =
     Rejected (NetworkError ''ECONNRESET'') \<and>
   length (filter is_request
     (trace (getHeaders CONFIG (down_env ''ECONNRESET'') ''http://a.example/old'' 0 0))) = 4 \<and>
   getHeaders CONFIG (down_env ''ENOTFOUND'') ''http://a.example/old'' 0 0 =
     \<lparr> settled = Rejected (NetworkError ''ENOTFOUND''), settled_at = 5,
       trace = [Request 0 http (request_options CONFIG old_url)] \<rparr>"
proof -
  let ?u = "''http://a.example/old''"
  have ph: "protocolHandler old_url = http"
    by (simp add: protocolHandler_def old_url_def)
  have p1: "URL flaky_env ?u = Some old_url"
    by (simp add: flaky_env_def simple_URL_old)
  have p2: "URL (down_env c) ?u = Some old_url" for c
    by (simp add: down_env_def simple_URL_old)
  let ?rq1 = "request flaky_env (protocolHandler old_url) (request_options CONFIG old_url)"
  have rq1: "?rq1 = (\<lambda>t. if t = 0 then Failed 5 ''ECONNRESET''
                              else if t = 1005 then Failed 5 ''ENOMEM''
                              else Responded 7 200 None)"
    by (simp add: flaky_env_def)
  have rq2: "request (down_env c) (protocolHandler old_url) (request_options CONFIG old_url)
               = (\<lambda>t. Failed 5 c)" for c
    by (simp add: down_env_def)
  have cfg: "MAX_RETRIES CONFIG = 3" "INITIAL_BACKOFF CONFIG = 1000"
    by (simp_all add: CONFIG_def)
  have two: "(2::nat) = Suc (Suc 0)" and three: "(3::nat) = Suc (Suc (Suc 0))"
    by simp_all
  have h1: "2 \<le> MAX_RETRIES CONFIG \<and> transient_failures CONFIG ?rq1 0 2 \<and>
            ?rq1 (attempt_at CONFIG ?rq1 0 2) = Responded 7 200 None"
    unfolding rq1 two by (simp add: cfg transient_def)
  have h2: "transient_failures CONFIG (\<lambda>t. Failed 5 ''ECONNRESET'') 0 (MAX_RETRIES CONFIG) \<and>
            (\<lambda>t. Failed 5 ''ECONNRESET'') (attempt_at CONFIG (\<lambda>t. Failed 5 ''ECONNRESET'') 0
               (MAX_RETRIES CONFIG)) = Failed 5 ''ECONNRESET''"
    unfolding cfg three by (simp add: transient_def)
  have h3: "0 \<le> MAX_RETRIES CONFIG \<and> transient_failures CONFIG (\<lambda>t. Failed 5 ''ENOTFOUND'') 0 0 \<and>
            (\<lambda>t. Failed 5 ''ENOTFOUND'') (attempt_at CONFIG (\<lambda>t. Failed 5 ''ENOTFOUND'') 0 0)
               = Failed 5 ''ENOTFOUND'' \<and> \<not> transient ''ENOTFOUND''"
    by (simp add: transient_def)
  note T1 = getHeaders_retry_backoff [OF p1 refl refl refl, where t = 0 and cfg = CONFIG, THEN conjunct1, rule_format, OF h1]
  note T2 = getHeaders_retry_backoff [OF p2 [of "''ECONNRESET''"] refl refl refl, where t = 0 and cfg = CONFIG,
              unfolded rq2, THEN conjunct2, THEN conjunct1, rule_format, OF h2]
  note T3 = getHeaders_retry_backoff [OF p2 [of "''ENOTFOUND''"] refl refl refl, where t = 0 and cfg = CONFIG,
              unfolded rq2, THEN conjunct2, THEN conjunct2, THEN conjunct1, rule_format, OF h3]
  have a: "getHeaders CONFIG flaky_env ?u 0 0 =
     \<lparr> settled = Resolved \<lparr> statusCode = 200, location = None \<rparr>, settled_at = 3017,
       trace = [Request 0 http (request_options CONFIG old_url), SetTimeout 5 1000,
      Request 1005 http (request_options CONFIG old_url), SetTimeout 1010 2000,
      Request 3010 http (request_options CONFIG old_url)] \<rparr>"
    unfolding T1 unfolding rq1 two by (simp add: cfg ph truthy_def)
  have b: "getHeaders CONFIG (down_env ''ECONNRESET'') ?u 0 0 =
     \<lparr> settled = Rejected (NetworkError ''ECONNRESET''), settled_at = 7020,
       trace = [Request 0 http (request_options CONFIG old_url), SetTimeout 5 1000,
      Request 1005 http (request_options CONFIG old_url), SetTimeout 1010 2000,
      Request 3010 http (request_options CONFIG old_url), SetTimeout 3015 4000,
      Request 7015 http (request_options CONFIG old_url)] \<rparr>"
    unfolding T2 unfolding cfg three by (simp add: cfg ph)
  have c: "getHeaders CONFIG (down_env ''ENOTFOUND'') ?u 0 0 =
     \<lparr> settled = Rejected (NetworkError ''ENOTFOUND''), settled_at = 5,
       trace = [Request 0 http (request_options CONFIG old_url)] \<rparr>"
    unfolding T3 by (simp add: ph)
  show ?thesis
    unfolding a b c by simp
qed

subsection \<open>Unparseable URLs\<close>

text \<open>
  When the URL constructor throws on the string, \<open>getHeaders\<close> rejects with that error at
  the very time it is called, whatever the retry count: its trace is empty, so no request
  is issued and no backoff wait is started. The resolver that called it rejects with the
  same error, for the source URL as for the \<open>Location\<close> of a later hop, and so does the
  scheduler's callback for that row. The example is a source without a scheme and a
  relative \<open>Location\<close>.
\<close>

lemma getHeaders_unparseable:
  assumes "URL env u = None"
  shows "getHeaders cfg env u retryCount t =
           \<lparr> settled = Rejected (InvalidURL u), settled_at = t, trace = [] \<rparr> \<and>
         checkURL cfg env u dest maxRedirections t =
           \<lparr> settled = Rejected (InvalidURL u), settled_at = t, trace = [GetHeaders t u] \<rparr> \<and>
         (\<forall>h rl rc. location h = Some u \<and> \<not> maxRedirections \<le> rc + 1 \<and> u \<noteq> [] \<longrightarrow>
            check cfg env src dest maxRedirections (Some h) rl rc t =
              \<lparr> settled = Rejected (InvalidURL u), settled_at = t, trace = [GetHeaders t u] \<rparr>) \<and>
         (\<forall>item. item (SOURCE cfg) = Some u \<and> u \<noteq> [] \<and> truthy (item (DESTINATION cfg)) \<longrightarrow>
            rejection (chunk_callback cfg env item t) = Some (t, InvalidURL u))"
proof -
  have g: "getHeaders cfg env u rc' t' =
           \<lparr> settled = Rejected (InvalidURL u), settled_at = t', trace = [] \<rparr>" for rc' t'
    using assms by (subst getHeaders.simps) simp
  have c: "checkURL cfg env u dest' m t =
           \<lparr> settled = Rejected (InvalidURL u), settled_at = t, trace = [GetHeaders t u] \<rparr>" for dest' m
    unfolding checkURL_def by (subst check.simps) (simp add: g headers_location_def truthy_def)
  have k: "check cfg env src dest maxRedirections (Some h) rl rc t =
              \<lparr> settled = Rejected (InvalidURL u), settled_at = t, trace = [GetHeaders t u] \<rparr>"
    if "location h = Some u" "\<not> maxRedirections \<le> rc + 1" "u \<noteq> []" for h rl rc
    using that by (subst check.simps) (simp add: g headers_location_def truthy_def)
  have r: "rejection (chunk_callback cfg env item t) = Some (t, InvalidURL u)"
    if "item (SOURCE cfg) = Some u" "u \<noteq> []" "truthy (item (DESTINATION cfg))" for item
    using that by (simp add: chunk_callback_def c truthy_def)
  show ?thesis
    using g c k r by blast
qed

lemma getHeaders_unparseable_example:
  "getHeaders CONFIG flaky_env ''a.example/old'' 0 0 =
     \<lparr> settled = Rejected (InvalidURL ''a.example/old''), settled_at = 0, trace = [] \<rparr> \<and>
   checkURL CONFIG flaky_env ''a.example/old'' ''https://a.example/new'' 3 0 =
     \<lparr> settled = Rejected (InvalidURL ''a.example/old''), settled_at = 0,
       trace = [GetHeaders 0 ''a.example/old''] \<rparr> \<and>
   check CONFIG flaky_env ''http://a.example/old'' ''https://a.example/new'' 3
       (Some \<lparr> statusCode = 301, location = Some ''/new'' \<rparr>) [] 0 40 =
     \<lparr> settled = Rejected (InvalidURL ''/new''), settled_at = 40,
       trace = [GetHeaders 40 ''/new''] \<rparr> \<and>
   rejection (chunk_callback CONFIG flaky_env
       [''src'' \<mapsto> ''a.example/old'', ''destination'' \<mapsto> ''https://a.example/new''] 0) =
     Some (0, InvalidURL ''a.example/old'')"
proof -
  have p1: "URL flaky_env ''a.example/old'' = None"
    unfolding flaky_env_def by simp code_simp
  have p2: "URL flaky_env ''/new'' = None"
    unfolding flaky_env_def by simp code_simp
  note A = getHeaders_unparseable [OF p1]
  note B = getHeaders_unparseable [OF p2]
  have a: "getHeaders CONFIG flaky_env ''a.example/old'' 0 0 =
     \<lparr> settled = Rejected (InvalidURL ''a.example/old''), settled_at = 0, trace = [] \<rparr>"
    using A by blast
  have b: "checkURL CONFIG flaky_env ''a.example/old'' ''https://a.example/new'' 3 0 =
     \<lparr> settled = Rejected (InvalidURL ''a.example/old''), settled_at = 0,
       trace = [GetHeaders 0 ''a.example/old''] \<rparr>"
    using A by blast
  have c: "check CONFIG flaky_env ''http://a.example/old'' ''https://a.example/new'' 3
       (Some \<lparr> statusCode = 301, location = Some ''/new'' \<rparr>) [] 0 40 =
     \<lparr> settled = Rejected (InvalidURL ''/new''), settled_at = 40,
       trace = [GetHeaders 40 ''/new''] \<rparr>"
    using B [where maxRedirections = 3 and t = 40, THEN conjunct2, THEN conjunct2, THEN conjunct1,
          rule_format, of "\<lparr> statusCode = 301, location = Some ''/new'' \<rparr>" 0]
    by simp
  have d: "rejection (chunk_callback CONFIG flaky_env
       [''src'' \<mapsto> ''a.example/old'', ''destination'' \<mapsto> ''https://a.example/new''] 0) =
     Some (0, InvalidURL ''a.example/old'')"
    using A [where cfg = CONFIG and t = 0, THEN conjunct2, THEN conjunct2, THEN conjunct2, rule_format,
          of "[''src'' \<mapsto> ''a.example/old'', ''destination'' \<mapsto> ''https://a.example/new'']"]
    by (simp add: CONFIG_def truthy_def)
  show ?thesis
    using a b c d by simp
qed

subsection \<open>The hop limit\<close>

lemma fetched_urls_append: "fetched_urls (xs @ ys) = fetched_urls xs @ fetched_urls ys"
  by (induction xs rule: fetched_urls.induct) simp_all

lemma getHeaders_trace_plain:
  "fetched_urls (trace (getHeaders cfg env u rc t)) = [] \<and>
   HopLimit t' \<notin> set (trace (getHeaders cfg env u rc t))"
proof (induction cfg env u rc t rule: getHeaders.induct)
  case (1 cfg env urlToParse retryCount t)
  show ?case
  proof (cases "URL env urlToParse")
    case None
    then show ?thesis by (subst (1 2) getHeaders.simps) simp
  next
    case (Some p)
    show ?thesis
    proof (cases "request env (protocolHandler p) (request_options cfg p) t")
      case (Responded ms sc loc)
      with Some show ?thesis by (subst (1 2) getHeaders.simps) simp
    next
      case (Failed ms c)
      show ?thesis
      proof (cases "transient c \<and> retryCount < MAX_RETRIES cfg")
        case True
        from "1.IH" [OF Some Failed True refl] Some Failed True show ?thesis
          by (subst (1 2) getHeaders.simps) (auto simp: Let_def)
      next
        case False
        with Some Failed show ?thesis by (subst (1 2) getHeaders.simps) auto
      qed
    qed
  qed
qed

lemma check_limit:
  assumes "location h = Some l" "l \<noteq> []" "maxRedirections \<le> Suc rc"
  shows "check cfg env src dest maxRedirections (Some h) rl rc t =
           \<lparr> settled = Resolved
               \<lparr> code = statusCode h, source = src, dest_wanted = dest,
                 dest_actual = Some l, redirectCounter = Suc rc,
                 redirectsList = rl @ [\<lparr> rlocation = l, rcode = statusCode h \<rparr>],
                 is_valid = False \<rparr>,
             settled_at = t, trace = [HopLimit t] \<rparr>"
  using assms by (subst check.simps) (simp add: headers_location_def truthy_def)

lemma check_hop:
  assumes "location h = Some l" "l \<noteq> []" "\<not> maxRedirections \<le> Suc rc"
  shows "check cfg env src dest maxRedirections (Some h) rl rc t =
           (let fetched = getHeaders cfg env l 0 t;
                rl' = rl @ [\<lparr> rlocation = l, rcode = statusCode h \<rparr>]
            in case settled fetched of
                 Rejected e \<Rightarrow>
                   \<lparr> settled = Rejected e, settled_at = settled_at fetched,
                     trace = GetHeaders t l # trace fetched \<rparr>
               | Resolved h' \<Rightarrow>
                   if truthy (location h') then
                     (let rest = check cfg env src dest maxRedirections (Some h') rl' (Suc rc)
                                   (settled_at fetched)
                      in rest \<lparr> trace := GetHeaders t l # trace fetched @ trace rest \<rparr>)
                   else
                     \<lparr> settled = Resolved
                         \<lparr> code = statusCode h', source = src, dest_wanted = dest,
                           dest_actual = Some l, redirectCounter = Suc rc,
                           redirectsList = rl',
                           is_valid = isRedirectValid cfg l dest rl' (Suc rc) (statusCode h') \<rparr>,
                       settled_at = settled_at fetched,
                       trace = GetHeaders t l # trace fetched \<rparr>)"
  using assms by (subst check.simps) (simp add: headers_location_def truthy_def Let_def)

lemma check_start:
  "check cfg env src dest maxRedirections None rl rc t =
           (let fetched = getHeaders cfg env src 0 t
            in case settled fetched of
                 Rejected e \<Rightarrow>
                   \<lparr> settled = Rejected e, settled_at = settled_at fetched,
                     trace = GetHeaders t src # trace fetched \<rparr>
               | Resolved h' \<Rightarrow>
                   if truthy (location h') then
                     (let rest = check cfg env src dest maxRedirections (Some h') rl rc
                                   (settled_at fetched)
                      in rest \<lparr> trace := GetHeaders t src # trace fetched @ trace rest \<rparr>)
                   else
                     \<lparr> settled = Resolved
                         \<lparr> code = statusCode h', source = src, dest_wanted = dest,
                           dest_actual = Some src, redirectCounter = rc,
                           redirectsList = rl,
                           is_valid = isRedirectValid cfg src dest rl rc (statusCode h') \<rparr>,
                       settled_at = settled_at fetched,
                       trace = GetHeaders t src # trace fetched \<rparr>)"
  by (subst check.simps) (simp add: headers_location_def truthy_def Let_def)

lemma check_at_limit:
  "location h = Some l \<Longrightarrow> l \<noteq> [] \<Longrightarrow>
   HopLimit t' \<in> set (trace (check cfg env src dest maxRedirections (Some h) rl rc t)) \<Longrightarrow>
   \<exists>hops. at_limit src dest maxRedirections rl rc (\<lparr> rlocation = l, rcode = statusCode h \<rparr> # hops)
            (check cfg env src dest maxRedirections (Some h) rl rc t)"
proof (induction "maxRedirections - rc" arbitrary: h l rl rc t rule: less_induct)
  case less
  note prems = less.prems
  let ?hop = "\<lparr> rlocation = l, rcode = statusCode h \<rparr>"
  show ?case
  proof (cases "maxRedirections \<le> Suc rc")
    case True
    have "at_limit src dest maxRedirections rl rc [?hop]
            (check cfg env src dest maxRedirections (Some h) rl rc t)"
      unfolding check_limit [OF prems(1,2) True] at_limit_def using True by simp
    then show ?thesis by blast
  next
    case False
    note hop = check_hop [OF prems(1,2) False, of cfg env src dest rl t]
    let ?f = "getHeaders cfg env l 0 t"
    note plain = getHeaders_trace_plain [of cfg env l 0 t]
    show ?thesis
    proof (cases "settled ?f")
      case (Rejected e)
      with prems(3) plain show ?thesis
        unfolding hop by (simp add: Let_def)
    next
      case (Resolved h')
      show ?thesis
      proof (cases "truthy (location h')")
        case False
        with Resolved prems(3) plain show ?thesis
          unfolding hop by (simp add: Let_def)
      next
        case True
        then obtain l' where l': "location h' = Some l'" "l' \<noteq> []"
          by (auto simp: truthy_def split: option.splits)
        let ?rest = "check cfg env src dest maxRedirections (Some h') (rl @ [?hop]) (Suc rc)
                       (settled_at ?f)"
        have eq: "check cfg env src dest maxRedirections (Some h) rl rc t =
                    ?rest \<lparr> trace := GetHeaders t l # trace ?f @ trace ?rest \<rparr>"
          unfolding hop using Resolved True by (simp add: Let_def)
        have lim: "HopLimit t' \<in> set (trace ?rest)"
          using prems(3) plain unfolding eq by simp
        have "\<exists>hops. at_limit src dest maxRedirections (rl @ [?hop]) (Suc rc)
                 (\<lparr> rlocation = l', rcode = statusCode h' \<rparr> # hops) ?rest"
          using less.hyps [OF _ l' lim] False by simp
        then obtain hops where
          h: "at_limit src dest maxRedirections (rl @ [?hop]) (Suc rc)
                 (\<lparr> rlocation = l', rcode = statusCode h' \<rparr> # hops) ?rest" ..
        have "at_limit src dest maxRedirections rl rc
                (?hop # \<lparr> rlocation = l', rcode = statusCode h' \<rparr> # hops)
                (check cfg env src dest maxRedirections (Some h) rl rc t)"
          using h plain False unfolding eq at_limit_def
          by (auto simp: fetched_urls_append)
        then show ?thesis by blast
      qed
    qed
  qed
qed

lemma checkURL_no_limit_without_hop:
  assumes "HopLimit t' \<in> set (trace (checkURL cfg env src dest maxRedirections t))"
  shows "\<exists>h l. settled (getHeaders cfg env src 0 t) = Resolved h \<and> location h = Some l \<and> l \<noteq> [] \<and>
           checkURL cfg env src dest maxRedirections t =
             (let rest = check cfg env src dest maxRedirections (Some h) [] 0
                           (settled_at (getHeaders cfg env src 0 t))
              in rest \<lparr> trace := GetHeaders t src # trace (getHeaders cfg env src 0 t) @ trace rest \<rparr>)"
proof (cases "settled (getHeaders cfg env src 0 t)")
  case (Rejected e)
  with assms getHeaders_trace_plain [of cfg env src 0 t t'] show ?thesis
    unfolding checkURL_def check_start by (simp add: Let_def)
next
  case (Resolved h)
  show ?thesis
  proof (cases "truthy (location h)")
    case False
    with Resolved assms getHeaders_trace_plain [of cfg env src 0 t t'] show ?thesis
      unfolding checkURL_def check_start by (simp add: Let_def)
  next
    case True
    then obtain l where "location h = Some l" "l \<noteq> []"
      by (auto simp: truthy_def split: option.splits)
    with Resolved True show ?thesis
      unfolding checkURL_def check_start by (simp add: Let_def)
  qed
qed

lemma getHeaders_responded:
  assumes "URL env u = Some p"
    and "request env (protocolHandler p) (request_options cfg p) t = Responded ms sc loc"
  shows "getHeaders cfg env u rc t =
           \<lparr> settled = Resolved \<lparr> statusCode = sc,
                                   location = (if truthy loc then loc else None) \<rparr>,
             settled_at = t + ms,
             trace = [Request t (protocolHandler p) (request_options cfg p)] \<rparr>"
  using assms by (subst getHeaders.simps) simp

lemma simple_URL_loop:
  "simple_URL ''http://a.example/loop'' =
     Some \<lparr> protocol = ''http:'', hostname = ''a.example'', pathname = ''/loop'', search = [] \<rparr>"
  by code_simp


lemma getHeaders_loop_env:
  "getHeaders cfg loop_env ''http://a.example/loop'' 0 t =
     \<lparr> settled = Resolved \<lparr> statusCode = 301, location = Some ''http://a.example/loop'' \<rparr>,
       settled_at = t + 10,
       trace = [Request t http \<lparr> opt_protocol = ''http:'', opt_hostname = ''a.example'',
                  opt_method = ''GET'', opt_path = ''/loop'',
                  opt_timeout = REQUEST_TIMEOUT cfg \<rparr>] \<rparr>"
  by (subst getHeaders.simps)
     (simp add: loop_env_def simple_URL_loop truthy_def protocolHandler_def request_options_def)





lemma check_limit_iff:
  "location h = Some l \<Longrightarrow> l \<noteq> [] \<Longrightarrow>
   (\<exists>t'. HopLimit t' \<in> set (trace (check cfg env src dest maxRedirections (Some h) rl rc t))) =
     redirects_on cfg env l t (maxRedirections - Suc rc)"
proof (induction "maxRedirections - rc" arbitrary: h l rl rc t rule: less_induct)
  case less
  note prems = less.prems
  let ?hop = "\<lparr> rlocation = l, rcode = statusCode h \<rparr>"
  show ?case
  proof (cases "maxRedirections \<le> Suc rc")
    case True
    then show ?thesis
      unfolding check_limit [OF prems True] by simp
  next
    case False
    then obtain k where k: "maxRedirections - Suc rc = Suc k" "k = maxRedirections - Suc (Suc rc)"
      by (cases "maxRedirections - Suc rc") auto
    note hop = check_hop [OF prems False, of cfg env src dest rl t]
    let ?f = "getHeaders cfg env l 0 t"
    have plain: "HopLimit t' \<notin> set (trace ?f)" for t'
      using getHeaders_trace_plain [of cfg env l 0 t t'] by simp
    show ?thesis
    proof (cases "settled ?f")
      case (Rejected e)
      with plain show ?thesis
        unfolding hop k(1) by (simp add: Let_def)
    next
      case (Resolved h')
      show ?thesis
      proof (cases "truthy (location h')")
        case False
        with Resolved plain show ?thesis
          unfolding hop k(1) by (auto simp: Let_def truthy_def split: option.splits)
      next
        case True
        then obtain l' where l': "location h' = Some l'" "l' \<noteq> []"
          by (auto simp: truthy_def split: option.splits)
        let ?rest = "check cfg env src dest maxRedirections (Some h') (rl @ [?hop]) (Suc rc)
                       (settled_at ?f)"
        have eq: "check cfg env src dest maxRedirections (Some h) rl rc t =
                    ?rest \<lparr> trace := GetHeaders t l # trace ?f @ trace ?rest \<rparr>"
          unfolding hop using Resolved True by (simp add: Let_def)
        have dec: "maxRedirections - Suc rc < maxRedirections - rc"
          using False by simp
        have ih: "(\<exists>t'. HopLimit t' \<in> set (trace ?rest)) = redirects_on cfg env l' (settled_at ?f) k"
          unfolding k(2) by (rule less.hyps [OF dec l'])
        have "(\<exists>t'. HopLimit t' \<in> set (trace (check cfg env src dest maxRedirections (Some h) rl rc t)))
              = (\<exists>t'. HopLimit t' \<in> set (trace ?rest))"
          unfolding eq using plain by simp
        also have "\<dots> = redirects_on cfg env l t (Suc k)"
          unfolding ih using Resolved l' by simp
        finally show ?thesis unfolding k(1) .
      qed
    qed
  qed
qed

lemma checkURL_limit_iff:
  "(\<exists>t'. HopLimit t' \<in> set (trace (checkURL cfg env src dest maxRedirections t))) =
     redirects_on cfg env src t (max 1 maxRedirections)"
proof -
  have m: "max 1 maxRedirections = Suc (maxRedirections - Suc 0)"
    by simp
  let ?f = "getHeaders cfg env src 0 t"
  have plain: "HopLimit t' \<notin> set (trace ?f)" for t'
    using getHeaders_trace_plain [of cfg env src 0 t t'] by simp
  show ?thesis
  proof (cases "settled ?f")
    case (Rejected e)
    with plain show ?thesis
      unfolding checkURL_def check_start m by (simp add: Let_def)
  next
    case (Resolved h)
    show ?thesis
    proof (cases "truthy (location h)")
      case False
      with Resolved plain show ?thesis
        unfolding checkURL_def check_start m
        by (auto simp: Let_def truthy_def split: option.splits)
    next
      case True
      then obtain l where l: "location h = Some l" "l \<noteq> []"
        by (auto simp: truthy_def split: option.splits)
      let ?rest = "check cfg env src dest maxRedirections (Some h) [] 0 (settled_at ?f)"
      have eq: "checkURL cfg env src dest maxRedirections t =
                  ?rest \<lparr> trace := GetHeaders t src # trace ?f @ trace ?rest \<rparr>"
        unfolding checkURL_def check_start using Resolved True by (simp add: Let_def)
      have "(\<exists>t'. HopLimit t' \<in> set (trace (checkURL cfg env src dest maxRedirections t)))
            = (\<exists>t'. HopLimit t' \<in> set (trace ?rest))"
        unfolding eq using plain by simp
      also have "\<dots> = redirects_on cfg env l (settled_at ?f) (maxRedirections - Suc 0)"
        by (rule check_limit_iff [OF l])
      also have "\<dots> = redirects_on cfg env src t (max 1 maxRedirections)"
        unfolding m using Resolved l by simp
      finally show ?thesis .
    qed
  qed
qed

lemma check_bound:
  "location h = Some l \<Longrightarrow> l \<noteq> [] \<Longrightarrow> length rl = rc \<Longrightarrow>
   length (fetched_urls (trace (check cfg env src dest maxRedirections (Some h) rl rc t)))
     \<le> maxRedirections - Suc rc \<and>
   (\<forall>p. settled (check cfg env src dest maxRedirections (Some h) rl rc t) = Resolved p \<longrightarrow>
      redirectCounter p \<le> max (Suc rc) maxRedirections \<and>
      length (redirectsList p) = redirectCounter p)"
proof (induction "maxRedirections - rc" arbitrary: h l rl rc t rule: less_induct)
  case less
  note prems = less.prems
  let ?hop = "\<lparr> rlocation = l, rcode = statusCode h \<rparr>"
  show ?case
  proof (cases "maxRedirections \<le> Suc rc")
    case True
    then show ?thesis
      unfolding check_limit [OF prems(1,2) True] using prems(3) by auto
  next
    case False
    note hop = check_hop [OF prems(1,2) False, of cfg env src dest rl t]
    let ?f = "getHeaders cfg env l 0 t"
    have plain: "fetched_urls (trace ?f) = []"
      using getHeaders_trace_plain [of cfg env l 0 t 0] by simp
    show ?thesis
    proof (cases "settled ?f")
      case (Rejected e)
      with plain False show ?thesis
        unfolding hop by (simp add: Let_def)
    next
      case (Resolved h')
      show ?thesis
      proof (cases "truthy (location h')")
        case nt: False
        with Resolved plain False prems(3) show ?thesis
          unfolding hop by (auto simp: Let_def)
      next
        case True
        then obtain l' where l': "location h' = Some l'" "l' \<noteq> []"
          by (auto simp: truthy_def split: option.splits)
        let ?rest = "check cfg env src dest maxRedirections (Some h') (rl @ [?hop]) (Suc rc)
                       (settled_at ?f)"
        have eq: "check cfg env src dest maxRedirections (Some h) rl rc t =
                    ?rest \<lparr> trace := GetHeaders t l # trace ?f @ trace ?rest \<rparr>"
          unfolding hop using Resolved True by (simp add: Let_def)
        have dec: "maxRedirections - Suc rc < maxRedirections - rc"
          using False by simp
        have len: "length (rl @ [?hop]) = Suc rc"
          using prems(3) by simp
        note ih = less.hyps [OF dec l' len, of "settled_at ?f"]
        show ?thesis
          unfolding eq using ih plain False
          by (auto simp: fetched_urls_append)
      qed
    qed
  qed
qed

lemma checkURL_bound:
  "length (fetched_urls (trace (checkURL cfg env src dest maxRedirections t)))
     \<le> max 1 maxRedirections \<and>
   (\<forall>p. settled (checkURL cfg env src dest maxRedirections t) = Resolved p \<longrightarrow>
      redirectCounter p \<le> max 1 maxRedirections \<and>
      length (redirectsList p) = redirectCounter p)"
proof -
  let ?f = "getHeaders cfg env src 0 t"
  have plain: "fetched_urls (trace ?f) = []"
    using getHeaders_trace_plain [of cfg env src 0 t 0] by simp
  show ?thesis
  proof (cases "settled ?f")
    case (Rejected e)
    with plain show ?thesis
      unfolding checkURL_def check_start by (simp add: Let_def)
  next
    case (Resolved h)
    show ?thesis
    proof (cases "truthy (location h)")
      case False
      with Resolved plain show ?thesis
        unfolding checkURL_def check_start by (auto simp: Let_def)
    next
      case True
      then obtain l where l: "location h = Some l" "l \<noteq> []"
        by (auto simp: truthy_def split: option.splits)
      let ?rest = "check cfg env src dest maxRedirections (Some h) [] 0 (settled_at ?f)"
      have eq: "checkURL cfg env src dest maxRedirections t =
                  ?rest \<lparr> trace := GetHeaders t src # trace ?f @ trace ?rest \<rparr>"
        unfolding checkURL_def check_start using Resolved True by (simp add: Let_def)
      note b = check_bound [OF l, of "[]" 0 cfg env src dest maxRedirections "settled_at ?f"]
      show ?thesis
        unfolding eq using b plain
        by (auto simp: fetched_urls_append)
    qed
  qed
qed

lemma simple_URL_chain:
  "simple_URL ''http://a.example/a'' =
     Some \<lparr> protocol = ''http:'', hostname = ''a.example'', pathname = ''/a'', search = [] \<rparr>"
  "simple_URL ''http://a.example/b'' =
     Some \<lparr> protocol = ''http:'', hostname = ''a.example'', pathname = ''/b'', search = [] \<rparr>"
  "simple_URL ''http://a.example/c'' =
     Some \<lparr> protocol = ''http:'', hostname = ''a.example'', pathname = ''/c'', search = [] \<rparr>"
  by code_simp+

lemma getHeaders_chain_env:
  "getHeaders cfg chain_env ''http://a.example/a'' 0 t =
     \<lparr> settled = Resolved \<lparr> statusCode = 301, location = Some ''http://a.example/b'' \<rparr>,
       settled_at = t + 10,
       trace = [Request t http \<lparr> opt_protocol = ''http:'', opt_hostname = ''a.example'',
                  opt_method = ''GET'', opt_path = ''/a'',
                  opt_timeout = REQUEST_TIMEOUT cfg \<rparr>] \<rparr>"
  "getHeaders cfg chain_env ''http://a.example/b'' 0 t =
     \<lparr> settled = Resolved \<lparr> statusCode = 302, location = Some ''http://a.example/c'' \<rparr>,
       settled_at = t + 10,
       trace = [Request t http \<lparr> opt_protocol = ''http:'', opt_hostname = ''a.example'',
                  opt_method = ''GET'', opt_path = ''/b'',
                  opt_timeout = REQUEST_TIMEOUT cfg \<rparr>] \<rparr>"
  "getHeaders cfg chain_env ''http://a.example/c'' 0 t =
     \<lparr> settled = Resolved \<lparr> statusCode = 301, location = Some ''http://a.example/d'' \<rparr>,
       settled_at = t + 10,
       trace = [Request t http \<lparr> opt_protocol = ''http:'', opt_hostname = ''a.example'',
                  opt_method = ''GET'', opt_path = ''/c'',
                  opt_timeout = REQUEST_TIMEOUT cfg \<rparr>] \<rparr>"
  by (subst getHeaders.simps,
      simp add: chain_env_def simple_URL_chain truthy_def protocolHandler_def
        request_options_def)+

lemma simple_URL_chain_end:
  "simple_URL ''http://a.example/d'' =
     Some \<lparr> protocol = ''http:'', hostname = ''a.example'', pathname = ''/d'', search = [] \<rparr>"
  by code_simp

lemma getHeaders_chain_env_end:
  "getHeaders cfg chain_env ''http://a.example/d'' 0 t =
     \<lparr> settled = Resolved \<lparr> statusCode = 200, location = None \<rparr>,
       settled_at = t + 10,
       trace = [Request t http \<lparr> opt_protocol = ''http:'', opt_hostname = ''a.example'',
                  opt_method = ''GET'', opt_path = ''/d'',
                  opt_timeout = REQUEST_TIMEOUT cfg \<rparr>] \<rparr>"
  by (subst getHeaders.simps)
     (simp add: chain_env_def simple_URL_chain_end truthy_def protocolHandler_def
        request_options_def)

lemma checkURL_chain_env_short:
  "checkURL CONFIG chain_env ''http://a.example/c'' ''http://a.example/d'' 3 0 =
     \<lparr> settled = Resolved \<lparr> code = 200, source = ''http://a.example/c'',
         dest_wanted = ''http://a.example/d'', dest_actual = Some ''http://a.example/d'',
         redirectCounter = 1,
         redirectsList = [\<lparr> rlocation = ''http://a.example/d'', rcode = 301 \<rparr>],
         is_valid = True \<rparr>,
       settled_at = 20,
       trace = [GetHeaders 0 ''http://a.example/c'',
                Request 0 http \<lparr> opt_protocol = ''http:'', opt_hostname = ''a.example'',
                  opt_method = ''GET'', opt_path = ''/c'', opt_timeout = 10000 \<rparr>,
                GetHeaders 10 ''http://a.example/d'',
                Request 10 http \<lparr> opt_protocol = ''http:'', opt_hostname = ''a.example'',
                  opt_method = ''GET'', opt_path = ''/d'', opt_timeout = 10000 \<rparr>] \<rparr>"
  unfolding checkURL_def
  by (simp add: check_start check_hop getHeaders_chain_env getHeaders_chain_env_end truthy_def
        Let_def isRedirectValid_def CONFIG_def)

lemma redirects_on_chain_env:
  "redirects_on cfg chain_env ''http://a.example/a'' t (Suc (Suc (Suc 0)))"
  by (simp add: getHeaders_chain_env)

text \<open>
  Claim C2, as amended. The resolver stops at the hop limit exactly when its first
  \<open>max 1 maxHops\<close> fetches, the source and the \<open>Location\<close>s that follow it, are each answered
  with a non-empty \<open>Location\<close>, whatever the last of these \<open>Location\<close>s would lead to. The
  resolution then resolves with \<open>is_valid = false\<close>, and its hop count, the length of its
  chain and the number of its fetches are all \<open>max 1 maxHops\<close>: exactly \<open>maxHops\<close> when
  \<open>maxHops \<ge> 1\<close>, and 1 when \<open>maxHops = 0\<close>, as the source is fetched and its hop recorded
  before the limit is looked at. No resolution makes more than \<open>max 1 maxHops\<close> fetches or
  resolves with a greater hop count.
\<close>

theorem checkURL_hop_limit_truncation:
  "(redirects_on cfg env src t (max 1 maxHops) \<longleftrightarrow>
      (\<exists>t'. HopLimit t' \<in> set (trace (checkURL cfg env src dest maxHops t)))) \<and>
   (redirects_on cfg env src t (max 1 maxHops) \<longrightarrow>
      (\<exists>parsedURL. settled (checkURL cfg env src dest maxHops t) = Resolved parsedURL \<and>
         \<not> is_valid parsedURL \<and>
         redirectCounter parsedURL = max 1 maxHops \<and>
         length (redirectsList parsedURL) = max 1 maxHops \<and>
         length (fetched_urls (trace (checkURL cfg env src dest maxHops t))) = max 1 maxHops)) \<and>
   length (fetched_urls (trace (checkURL cfg env src dest maxHops t))) \<le> max 1 maxHops \<and>
   (\<forall>parsedURL. settled (checkURL cfg env src dest maxHops t) = Resolved parsedURL \<longrightarrow>
      redirectCounter parsedURL \<le> max 1 maxHops \<and>
      length (redirectsList parsedURL) = redirectCounter parsedURL)"
proof -
  have stop: "\<exists>parsedURL. settled (checkURL cfg env src dest maxHops t) = Resolved parsedURL \<and>
         \<not> is_valid parsedURL \<and>
         redirectCounter parsedURL = max 1 maxHops \<and>
         length (redirectsList parsedURL) = max 1 maxHops \<and>
         length (fetched_urls (trace (checkURL cfg env src dest maxHops t))) = max 1 maxHops"
    if r: "redirects_on cfg env src t (max 1 maxHops)"
  proof -
    from r have "\<exists>t'. HopLimit t' \<in> set (trace (checkURL cfg env src dest maxHops t))"
      by (simp only: checkURL_limit_iff)
    then obtain t' where lim: "HopLimit t' \<in> set (trace (checkURL cfg env src dest maxHops t))"
      by blast
    from checkURL_no_limit_without_hop [OF lim] obtain h l where
      l: "location h = Some l" "l \<noteq> []" and
      eq: "checkURL cfg env src dest maxHops t =
             (let rest = check cfg env src dest maxHops (Some h) [] 0
                           (settled_at (getHeaders cfg env src 0 t))
              in rest \<lparr> trace := GetHeaders t src # trace (getHeaders cfg env src 0 t) @ trace rest \<rparr>)"
      by blast
    let ?rest = "check cfg env src dest maxHops (Some h) [] 0
                   (settled_at (getHeaders cfg env src 0 t))"
    note plain = getHeaders_trace_plain [of cfg env src 0 t t']
    have "HopLimit t' \<in> set (trace ?rest)"
      using lim plain unfolding eq by (simp add: Let_def)
    from check_at_limit [OF l this] obtain hops where
      a: "at_limit src dest maxHops [] 0 (\<lparr> rlocation = l, rcode = statusCode h \<rparr> # hops) ?rest"
      by blast
    from a have n: "Suc (length hops) = max 1 maxHops"
      unfolding at_limit_def by auto
    show ?thesis
      using a plain n unfolding eq at_limit_def
      by (auto simp: Let_def fetched_urls_append)
  qed
  show ?thesis
    using stop checkURL_limit_iff [of cfg env src dest maxHops t]
      checkURL_bound [of cfg env src dest maxHops t]
    by blast
qed

theorem checkURL_hop_limit_truncation_witness:
  "redirects_on CONFIG chain_env ''http://a.example/a'' 0 (max 1 (MAX_REDIRECTIONS CONFIG)) \<and>
   (\<exists>t'. HopLimit t' \<in> set (trace (checkURL CONFIG chain_env ''http://a.example/a''
                                       ''http://a.example/d'' (MAX_REDIRECTIONS CONFIG) 0))) \<and>
   (\<exists>parsedURL.
      settled (checkURL CONFIG chain_env ''http://a.example/a'' ''http://a.example/d''
                 (MAX_REDIRECTIONS CONFIG) 0) = Resolved parsedURL \<and>
      \<not> is_valid parsedURL \<and> redirectCounter parsedURL = 3 \<and>
      length (redirectsList parsedURL) = 3 \<and>
      length (fetched_urls (trace (checkURL CONFIG chain_env ''http://a.example/a''
                 ''http://a.example/d'' (MAX_REDIRECTIONS CONFIG) 0))) = 3) \<and>
   \<not> redirects_on CONFIG chain_env ''http://a.example/c'' 0 (max 1 (MAX_REDIRECTIONS CONFIG)) \<and>
   \<not> (\<exists>t'. HopLimit t' \<in> set (trace (checkURL CONFIG chain_env ''http://a.example/c''
                                         ''http://a.example/d'' (MAX_REDIRECTIONS CONFIG) 0))) \<and>
   length (fetched_urls (trace (checkURL CONFIG chain_env ''http://a.example/c''
              ''http://a.example/d'' (MAX_REDIRECTIONS CONFIG) 0))) \<le> 3 \<and>
   (\<exists>parsedURL.
      settled (checkURL CONFIG chain_env ''http://a.example/c'' ''http://a.example/d''
                 (MAX_REDIRECTIONS CONFIG) 0) = Resolved parsedURL \<and>
      is_valid parsedURL \<and> redirectCounter parsedURL \<le> 3 \<and>
      length (redirectsList parsedURL) = redirectCounter parsedURL)"
proof -
  have m: "max 1 (MAX_REDIRECTIONS CONFIG) = 3"
    by (simp add: CONFIG_def)
  have r: "redirects_on CONFIG chain_env ''http://a.example/a'' 0 (max 1 (MAX_REDIRECTIONS CONFIG))"
    unfolding m using redirects_on_chain_env [of CONFIG 0] by (simp add: eval_nat_numeral)
  note T = checkURL_hop_limit_truncation [of CONFIG chain_env "''http://a.example/a''" 0
             "MAX_REDIRECTIONS CONFIG" "''http://a.example/d''"]
  from T r have lim: "\<exists>t'. HopLimit t' \<in> set (trace (checkURL CONFIG chain_env
           ''http://a.example/a'' ''http://a.example/d'' (MAX_REDIRECTIONS CONFIG) 0))"
    by blast
  from T r have out: "\<exists>parsedURL.
      settled (checkURL CONFIG chain_env ''http://a.example/a'' ''http://a.example/d''
                 (MAX_REDIRECTIONS CONFIG) 0) = Resolved parsedURL \<and>
      \<not> is_valid parsedURL \<and> redirectCounter parsedURL = max 1 (MAX_REDIRECTIONS CONFIG) \<and>
      length (redirectsList parsedURL) = max 1 (MAX_REDIRECTIONS CONFIG) \<and>
      length (fetched_urls (trace (checkURL CONFIG chain_env ''http://a.example/a''
                 ''http://a.example/d'' (MAX_REDIRECTIONS CONFIG) 0))) =
        max 1 (MAX_REDIRECTIONS CONFIG)"
    by blast
  have nr: "\<not> redirects_on CONFIG chain_env ''http://a.example/c'' 0
              (max 1 (MAX_REDIRECTIONS CONFIG))"
    unfolding m
    by (simp add: eval_nat_numeral getHeaders_chain_env getHeaders_chain_env_end)
  note S = checkURL_hop_limit_truncation [of CONFIG chain_env "''http://a.example/c''" 0
             "MAX_REDIRECTIONS CONFIG" "''http://a.example/d''"]
  from S nr have nlim: "\<not> (\<exists>t'. HopLimit t' \<in> set (trace (checkURL CONFIG chain_env
           ''http://a.example/c'' ''http://a.example/d'' (MAX_REDIRECTIONS CONFIG) 0)))"
    by blast
  from S have len: "length (fetched_urls (trace (checkURL CONFIG chain_env ''http://a.example/c''
              ''http://a.example/d'' (MAX_REDIRECTIONS CONFIG) 0))) \<le>
              max 1 (MAX_REDIRECTIONS CONFIG)"
    by blast
  have mr: "MAX_REDIRECTIONS CONFIG = 3"
    by (simp add: CONFIG_def)
  obtain p where p: "settled (checkURL CONFIG chain_env ''http://a.example/c''
                 ''http://a.example/d'' (MAX_REDIRECTIONS CONFIG) 0) = Resolved p"
    and v: "is_valid p"
    unfolding mr checkURL_chain_env_short by simp
  from S p have "redirectCounter p \<le> max 1 (MAX_REDIRECTIONS CONFIG) \<and>
      length (redirectsList p) = redirectCounter p"
    by blast
  with p v have short: "\<exists>parsedURL.
      settled (checkURL CONFIG chain_env ''http://a.example/c'' ''http://a.example/d''
                 (MAX_REDIRECTIONS CONFIG) 0) = Resolved parsedURL \<and>
      is_valid parsedURL \<and> redirectCounter parsedURL \<le> max 1 (MAX_REDIRECTIONS CONFIG) \<and>
      length (redirectsList parsedURL) = redirectCounter parsedURL"
    by blast
  show ?thesis
    using r lim out nr nlim len short unfolding m by simp
qed

theorem checkURL_hop_limit_zero_counterexample:
  "settled (checkURL CONFIG loop_env ''http://a.example/loop'' ''https://a.example/new'' 0 0) =
     Resolved \<lparr> code = 301, source = ''http://a.example/loop'',
       dest_wanted = ''https://a.example/new'', dest_actual = Some ''http://a.example/loop'',
       redirectCounter = 1,
       redirectsList = [\<lparr> rlocation = ''http://a.example/loop'', rcode = 301 \<rparr>],
       is_valid = False \<rparr> \<and>
   trace (checkURL CONFIG loop_env ''http://a.example/loop'' ''https://a.example/new'' 0 0) =
     [GetHeaders 0 ''http://a.example/loop'',
      Request 0 http \<lparr> opt_protocol = ''http:'', opt_hostname = ''a.example'',
        opt_method = ''GET'', opt_path = ''/loop'', opt_timeout = 10000 \<rparr>,
      HopLimit 10]"
  unfolding checkURL_def
  by (simp add: check_start check_limit getHeaders_loop_env truthy_def Let_def CONFIG_def)




subsection \<open>The scheduler's loop\<close>

lemma processUrls_from_invariant:
  assumes r: "processUrls_from cfg env data i st = Some r"
    and P: "P i st"
    and step: "\<And>i st. P i st \<Longrightarrow> i < length data \<Longrightarrow>
                 P (i + CHUNK_SIZE cfg) (process_chunk cfg env data i st)"
  shows "\<exists>j. P j r \<and> length data \<le> j"
proof -
  let ?Q = "\<lambda>c e d i st r. c = cfg \<and> e = env \<and> d = data \<longrightarrow> P i st \<longrightarrow>
              (\<exists>j. P j r \<and> length data \<le> j)"
  have "?Q cfg env data i st r"
  proof (rule processUrls_from.raw_induct [where P = ?Q])
    show "processUrls_from cfg env data i st = Some r" by (rule r)
  next
    fix f c e d i st y
    assume IH: "\<And>a b c d e y. f a b c d e = Some y \<Longrightarrow> ?Q a b c d e y"
      and eq: "(if i < length d then f c e d (i + CHUNK_SIZE c) (process_chunk c e d i st)
                else Some st) = Some y"
    show "?Q c e d i st y"
    proof (intro impI, elim conjE)
      assume c: "c = cfg" "e = env" "d = data" and Pi: "P i st"
      show "\<exists>j. P j y \<and> length data \<le> j"
      proof (cases "i < length data")
        case True
        with eq c have "f cfg env data (i + CHUNK_SIZE cfg) (process_chunk cfg env data i st) = Some y"
          by simp
        from IH [OF this] step [OF Pi True] show ?thesis by simp
      next
        case False
        with eq c have "y = st" by simp
        with Pi False show ?thesis by auto
      qed
    qed
  qed
  with P show ?thesis by simp
qed

lemma processUrls_from_returns:
  assumes "0 < CHUNK_SIZE cfg"
  shows "\<exists>r. processUrls_from cfg env data i st = Some r"
proof (induction "length data - i" arbitrary: i st rule: less_induct)
  case less
  show ?case
  proof (cases "i < length data")
    case True
    then have "length data - (i + CHUNK_SIZE cfg) < length data - i"
      using assms by simp
    from less [OF this] show ?thesis
      by (subst processUrls_from.simps) (simp add: True)
  next
    case False
    then show ?thesis by (subst processUrls_from.simps) simp
  qed
qed

subsection \<open>A run on the scenario site\<close>

lemma CONFIG_fields:
  "MAX_REDIRECTIONS CONFIG = 3" "MAX_RETRIES CONFIG = 3" "INITIAL_BACKOFF CONFIG = 1000"
  "REQUEST_TIMEOUT CONFIG = 10000" "CHUNK_SIZE CONFIG = 8" "CHUNK_DELAY CONFIG = 2000"
  "PERMANENT_REDIRECT CONFIG = [301, 308]" "SOURCE CONFIG = ''src''"
  "DESTINATION CONFIG = ''destination''"
  by (simp_all add: CONFIG_def)

lemma simple_URL_site:
  "simple_URL ''http://a.example/old'' =
     Some \<lparr> protocol = ''http:'', hostname = ''a.example'', pathname = ''/old'', search = [] \<rparr>"
  "simple_URL ''https://a.example/new'' =
     Some \<lparr> protocol = ''https:'', hostname = ''a.example'', pathname = ''/new'', search = [] \<rparr>"
  "simple_URL ''http://b.example/old'' =
     Some \<lparr> protocol = ''http:'', hostname = ''b.example'', pathname = ''/old'', search = [] \<rparr>"
  "simple_URL ''https://b.example/new'' =
     Some \<lparr> protocol = ''https:'', hostname = ''b.example'', pathname = ''/new'', search = [] \<rparr>"
  "simple_URL ''http://slow.example/old'' =
     Some \<lparr> protocol = ''http:'', hostname = ''slow.example'', pathname = ''/old'', search = [] \<rparr>"
  "simple_URL ''https://slow.example/new'' =
     Some \<lparr> protocol = ''https:'', hostname = ''slow.example'', pathname = ''/new'', search = [] \<rparr>"
  "simple_URL ''http://gone.example/old'' =
     Some \<lparr> protocol = ''http:'', hostname = ''gone.example'', pathname = ''/old'', search = [] \<rparr>"
  by code_simp+

lemma getHeaders_failed_final:
  assumes "URL env u = Some p"
    and "request env (protocolHandler p) (request_options cfg p) t = Failed ms c"
    and "\<not> transient c"
  shows "getHeaders cfg env u rc t =
           \<lparr> settled = Rejected (NetworkError c), settled_at = t + ms,
             trace = [Request t (protocolHandler p) (request_options cfg p)] \<rparr>"
  using assms by (subst getHeaders.simps) simp

lemma getHeaders_site:
  "getHeaders CONFIG site_env ''http://a.example/old'' 0 t =
     \<lparr> settled = Resolved \<lparr> statusCode = 301, location = Some ''https://a.example/new'' \<rparr>,
       settled_at = t + 10, trace = [Request t http (GET ''http:'' ''a.example'' ''/old'')] \<rparr>"
  "getHeaders CONFIG site_env ''https://a.example/new'' 0 t =
     \<lparr> settled = Resolved \<lparr> statusCode = 200, location = None \<rparr>,
       settled_at = t + 10, trace = [Request t https (GET ''https:'' ''a.example'' ''/new'')] \<rparr>"
  "getHeaders CONFIG site_env ''http://b.example/old'' 0 t =
     \<lparr> settled = Resolved \<lparr> statusCode = 302, location = Some ''https://b.example/new'' \<rparr>,
       settled_at = t + 10, trace = [Request t http (GET ''http:'' ''b.example'' ''/old'')] \<rparr>"
  "getHeaders CONFIG site_env ''https://b.example/new'' 0 t =
     \<lparr> settled = Resolved \<lparr> statusCode = 200, location = None \<rparr>,
       settled_at = t + 10, trace = [Request t https (GET ''https:'' ''b.example'' ''/new'')] \<rparr>"
  "getHeaders CONFIG site_env ''http://slow.example/old'' 0 t =
     \<lparr> settled = Resolved \<lparr> statusCode = 301, location = Some ''https://slow.example/new'' \<rparr>,
       settled_at = t + 5000, trace = [Request t http (GET ''http:'' ''slow.example'' ''/old'')] \<rparr>"
  "getHeaders CONFIG site_env ''https://slow.example/new'' 0 t =
     \<lparr> settled = Resolved \<lparr> statusCode = 200, location = None \<rparr>,
       settled_at = t + 10, trace = [Request t https (GET ''https:'' ''slow.example'' ''/new'')] \<rparr>"
  "getHeaders CONFIG site_env ''http://gone.example/old'' 0 t =
     \<lparr> settled = Rejected (NetworkError ''ENOTFOUND''),
       settled_at = t + 10, trace = [Request t http (GET ''http:'' ''gone.example'' ''/old'')] \<rparr>"
  by (subst getHeaders.simps,
      simp add: site_env_def simple_URL_site truthy_def protocolHandler_def request_options_def
        GET_def CONFIG_fields transient_def)+

lemma checkURL_site:
  "checkURL CONFIG site_env ''http://a.example/old'' dest 3 t = resolved_a dest t"
  "checkURL CONFIG site_env ''http://b.example/old'' ''https://b.example/new'' 3 t = resolved_b t"
  "checkURL CONFIG site_env ''http://slow.example/old'' ''https://slow.example/new'' 3 t =
     resolved_slow t"
  "checkURL CONFIG site_env ''https://a.example/new'' ''https://a.example/new'' 3 t =
     resolved_direct t"
  "checkURL CONFIG site_env ''http://gone.example/old'' dest 3 t = rejected_gone t"
  unfolding checkURL_def resolved_a_def resolved_b_def resolved_slow_def resolved_direct_def
    rejected_gone_def a_outcome_def b_outcome_def slow_outcome_def direct_outcome_def
  by (simp_all add: check_start check_hop getHeaders_site truthy_def Let_def
        isRedirectValid_def CONFIG_fields)

lemma chunk_callback_site:
  "chunk_callback CONFIG site_env
     [''src'' \<mapsto> ''http://gone.example/old'', ''destination'' \<mapsto> ''https://gone.example/new''] t =
     Checked (rejected_gone t)"
  "chunk_callback CONFIG site_env
     [''src'' \<mapsto> ''http://slow.example/old'', ''destination'' \<mapsto> ''https://slow.example/new''] t =
     Checked (resolved_slow t)"
  "chunk_callback CONFIG site_env
     [''src'' \<mapsto> ''http://a.example/old'', ''destination'' \<mapsto> ''https://a.example/new''] t =
     Checked (resolved_a ''https://a.example/new'' t)"
  "chunk_callback CONFIG site_env
     [''src'' \<mapsto> ''http://b.example/old'', ''destination'' \<mapsto> ''https://b.example/new''] t =
     Checked (resolved_b t)"
  "chunk_callback CONFIG site_env [''destination'' \<mapsto> ''https://a.example/new''] t = Skipped"
  "chunk_callback CONFIG site_env
     [''src'' \<mapsto> ''http://a.example/old'', ''destination'' \<mapsto> ''''] t = Skipped"
  "chunk_callback CONFIG site_env
     [''src'' \<mapsto> ''http://a.example/old'', ''destination'' \<mapsto> ''https://a.example/other''] t =
     Checked (resolved_a ''https://a.example/other'' t)"
  "chunk_callback CONFIG site_env
     [''src'' \<mapsto> ''https://a.example/new'', ''destination'' \<mapsto> ''https://a.example/new''] t =
     Checked (resolved_direct t)"
  by (simp_all add: chunk_callback_def CONFIG_fields truthy_def checkURL_site Let_def)

lemma processUrls_site:
  "processUrls CONFIG site_env site_data 0 =
     Some \<lparr> now = 4030, tasks = site_tasks, console_error = [NetworkError ''ENOTFOUND''] \<rparr>"
proof -
  let ?st0 = "\<lparr> now = 0, tasks = [], console_error = [] \<rparr>"
  let ?st1 = "\<lparr> now = 2010, tasks = take 8 site_tasks,
                console_error = [NetworkError ''ENOTFOUND''] \<rparr>"
  let ?st2 = "\<lparr> now = 4030, tasks = site_tasks, console_error = [NetworkError ''ENOTFOUND''] \<rparr>"
  have len: "length site_data = 9"
    by (simp add: site_data_def)
  have c1: "process_chunk CONFIG site_env site_data 0 ?st0 = ?st1"
    by (simp add: process_chunk_def site_data_def site_tasks_def CONFIG_fields Let_def
          chunk_callback_site Promise_all_def rejected_gone_def resolved_slow_def resolved_a_def resolved_b_def
          resolved_direct_def)
  have c2: "process_chunk CONFIG site_env site_data 8 ?st1 = ?st2"
    by (simp add: process_chunk_def site_data_def site_tasks_def CONFIG_fields Let_def
          chunk_callback_site Promise_all_def rejected_gone_def resolved_slow_def resolved_a_def resolved_b_def
          resolved_direct_def)
  have s2: "processUrls_from CONFIG site_env site_data 16 ?st2 = Some ?st2"
    by (subst processUrls_from.simps) (simp add: len)
  have s1: "processUrls_from CONFIG site_env site_data 8 ?st1 = Some ?st2"
    by (subst processUrls_from.simps) (simp add: len CONFIG_fields c2 s2)
  show ?thesis
    unfolding processUrls_def
    by (subst processUrls_from.simps) (simp add: len CONFIG_fields c1 s1)
qed

lemma completions_site:
  "completions site_tasks =
     [(10, direct_outcome), (20, a_outcome ''https://a.example/new''), (20, b_outcome),
      (20, a_outcome ''https://a.example/other''), (2030, a_outcome ''https://a.example/new''),
      (5010, slow_outcome)]"
  by (simp add: completions_def site_tasks_def rejected_gone_def resolved_slow_def resolved_a_def
        resolved_b_def resolved_direct_def)

lemma report_at_site: "report_at empty_report site_tasks 4030 = site_report"
  by (simp add: report_at_def completions_site recordParsedURL_def empty_report_def
        site_report_def Let_def a_outcome_def b_outcome_def direct_outcome_def)

lemma lex_compare_site:
  "lex_compare ''http://b.example/old'' ''http://a.example/old'' = 1"
  "lex_compare ''http://a.example/old'' ''http://a.example/old'' = 0"
  "lex_compare ''https://a.example/new'' ''http://a.example/old'' = 1"
  "lex_compare ''https://a.example/new'' ''http://b.example/old'' = 1"
  by code_simp+

lemma format_url_site:
  "format_url direct_outcome = marked direct_outcome CROSS_MARK"
  "format_url b_outcome = marked b_outcome CROSS_MARK"
  "format_url (a_outcome ''https://a.example/other'') =
     marked (a_outcome ''https://a.example/other'') CROSS_MARK"
  "format_url (a_outcome ''https://a.example/new'') =
     marked (a_outcome ''https://a.example/new'') CHECK_MARK"
  by (simp_all add: format_url_def marked_def a_outcome_def b_outcome_def direct_outcome_def)

lemma marked_fields:
  "is_valid (marked url m) = is_valid url" "source (marked url m) = source url"
  by (simp_all add: marked_def outcome.defs)

lemma compare_urls_site:
  "compare_urls site_env (marked (a_outcome ''https://a.example/other'') CROSS_MARK)
     (marked (a_outcome ''https://a.example/new'') CHECK_MARK) = - 1"
  "compare_urls site_env (marked b_outcome CROSS_MARK)
     (marked (a_outcome ''https://a.example/other'') CROSS_MARK) = 1"
  "compare_urls site_env (marked b_outcome CROSS_MARK)
     (marked (a_outcome ''https://a.example/new'') CHECK_MARK) = - 1"
  "compare_urls site_env (marked (a_outcome ''https://a.example/new'') CHECK_MARK)
     (marked (a_outcome ''https://a.example/other'') CROSS_MARK) = 1"
  "compare_urls site_env (marked (a_outcome ''https://a.example/new'') CHECK_MARK)
     (marked b_outcome CROSS_MARK) = 1"
  "compare_urls site_env (marked (a_outcome ''https://a.example/new'') CHECK_MARK)
     (marked (a_outcome ''https://a.example/new'') CHECK_MARK) = 0"
  "compare_urls site_env (marked direct_outcome CROSS_MARK)
     (marked (a_outcome ''https://a.example/other'') CROSS_MARK) = 1"
  "compare_urls site_env (marked direct_outcome CROSS_MARK) (marked b_outcome CROSS_MARK) = 1"
  "compare_urls site_env (marked direct_outcome CROSS_MARK)
     (marked (a_outcome ''https://a.example/new'') CHECK_MARK) = - 1"
  by (simp_all add: compare_urls_def marked_fields site_env_def lex_compare_site
        a_outcome_def b_outcome_def direct_outcome_def del: lex_compare.simps)

lemma finalReport_site: "finalReport site_env site_report = site_final"
  by (simp add: finalReport_def site_report_def site_final_def Array_sort_def format_url_site
        compare_urls_site Let_def)

lemma main_site:
  "main CONFIG site_env (Ended site_data) 0 =
     Some \<lparr> exit_status = 0, main_error = None, written = Some site_final,
            network = activity site_tasks \<rparr>"
proof -
  have "getData CONFIG (Ended site_data) = Some (Resolved site_data)"
    by (simp add: getData_def site_data_def)
  then show ?thesis
    by (simp add: main_def processUrls_site report_at_site finalReport_site)
qed

subsection \<open>The counting invariant\<close>

lemma recordParsedURL_effect:
  "total (result (recordParsedURL report parsedURL)) = total (result report) + 1"
  "valid (result (recordParsedURL report parsedURL)) =
     valid (result report) + (if is_valid parsedURL then 1 else 0)"
  "invalid (result (recordParsedURL report parsedURL)) =
     invalid (result report) + (if is_valid parsedURL then 0 else 1)"
  "urls (recordParsedURL report parsedURL) = urls report @ [parsedURL]"
  by (simp_all add: recordParsedURL_def Let_def)

lemma counts_agree_record:
  "counts_agree report \<Longrightarrow> counts_agree (recordParsedURL report parsedURL)"
  by (simp add: counts_agree_def recordParsedURL_effect)

lemma counts_agree_foldl:
  "counts_agree report \<Longrightarrow> counts_agree (foldl recordParsedURL report os)"
  by (induction os arbitrary: report) (simp_all add: counts_agree_record)

lemma foldl_record_total:
  "total (result (foldl recordParsedURL report os)) = total (result report) + length os"
  by (induction os arbitrary: report) (simp_all add: recordParsedURL_effect)

lemma foldl_record_urls:
  "urls (foldl recordParsedURL report os) = urls report @ os"
  by (induction os arbitrary: report) (simp_all add: recordParsedURL_effect)

lemma insert_sorted_mset: "mset (insert_sorted cmp x xs) = add_mset x (mset xs)"
  by (induction xs) simp_all

lemma Array_sort_mset: "mset (Array_sort cmp xs) = mset xs"
  unfolding Array_sort_def by (induction xs) (simp_all add: insert_sorted_mset)

lemma Array_sort_length: "length (Array_sort cmp xs) = length xs"
  using Array_sort_mset [of cmp xs] by (metis size_mset)

lemma finalReport_counts:
  "counts_agree report \<Longrightarrow> counts_agree (finalReport env report)"
  by (simp add: counts_agree_def finalReport_def Let_def Array_sort_length)

text \<open>
  Claim C4. The report is changed only by \<open>recordParsedURL\<close>, which in one step adds 1 to
  \<open>total\<close>, adds 1 to \<open>valid\<close> or to \<open>invalid\<close> according to \<open>is_valid\<close>, and appends the
  outcome. Hence, from a report whose counts agree (as the empty one does), the counts
  agree after any number of completed resolutions, at every time \<open>T\<close>, and in the final
  report that \<open>main\<close> writes: \<open>total = valid + invalid = length urls\<close>.
\<close>

theorem report_counts_invariant:
  assumes "counts_agree report"
  shows "(\<forall>ts n. counts_agree
            (foldl recordParsedURL report (take n (map snd (completions ts))))) \<and>
         (\<forall>ts T. counts_agree (report_at report ts T)) \<and>
         (\<forall>parsedURL.
            total (result (recordParsedURL report parsedURL)) = total (result report) + 1 \<and>
            valid (result (recordParsedURL report parsedURL)) =
              valid (result report) + (if is_valid parsedURL then 1 else 0) \<and>
            invalid (result (recordParsedURL report parsedURL)) =
              invalid (result report) + (if is_valid parsedURL then 0 else 1) \<and>
            urls (recordParsedURL report parsedURL) = urls report @ [parsedURL]) \<and>
         counts_agree empty_report \<and>
         (\<forall>cfg env stream t e w. main cfg env stream t = Some e \<and> written e = Some w \<longrightarrow>
            counts_agree w)"
proof -
  have e: "counts_agree empty_report"
    by (simp add: counts_agree_def empty_report_def)
  have m: "counts_agree w" if "main cfg env stream t = Some e" "written e = Some w"
    for cfg env stream t e and w :: "formatted report"
    using that e
    by (auto simp: main_def report_at_def split: promise.splits option.splits
          intro!: finalReport_counts counts_agree_foldl)
  show ?thesis
    using assms e m
    by (auto simp: report_at_def recordParsedURL_effect intro: counts_agree_foldl)
qed

theorem report_counts_invariant_witness:
  "counts_agree (report_at empty_report site_tasks 25) \<and>
   counts_agree (report_at empty_report site_tasks 4030) \<and>
   counts_agree (report_at empty_report site_tasks 6000) \<and>
   counts_agree site_final"
proof -
  have e: "counts_agree empty_report"
    by (simp add: counts_agree_def empty_report_def)
  note T = report_counts_invariant [OF e]
  have w: "written \<lparr> exit_status = 0, main_error = None, written = Some site_final,
                      network = activity site_tasks \<rparr> = Some site_final"
    by simp
  from T have "counts_agree site_final"
    using main_site w by blast
  moreover from T have "counts_agree (report_at empty_report site_tasks T')" for T'
    by blast
  ultimately show ?thesis by simp
qed

subsection \<open>Skipped rows\<close>

lemma process_chunk_tasks:
  assumes "i < length data"
  shows "tasks (process_chunk cfg env data i st) =
           tasks st @ map (\<lambda>k. \<lparr> row_index = k, started_at = now st,
                                  task = chunk_callback cfg env (data ! k) (now st) \<rparr>)
                          [i ..< min (i + CHUNK_SIZE cfg) (length data)]"
proof -
  let ?chunk = "take (CHUNK_SIZE cfg) (drop i data)"
  let ?f = "\<lambda>k item. \<lparr> row_index = k, started_at = now st,
                         task = chunk_callback cfg env item (now st) \<rparr>"
  have len: "length ?chunk = min (i + CHUNK_SIZE cfg) (length data) - i"
    using assms by auto
  have "map (\<lambda>(index, item). ?f (i + index) item) (enumerate 0 ?chunk) =
        map (\<lambda>k. ?f k (data ! k)) [i ..< min (i + CHUNK_SIZE cfg) (length data)]"
    by (rule nth_equalityI) (auto simp: len nth_enumerate_eq)
  then show ?thesis
    by (simp add: process_chunk_def Let_def)
qed

lemma processUrls_tasks:
  assumes "processUrls cfg env data t = Some r"
  shows "map row_index (tasks r) = [0 ..< length data] \<and>
         (\<forall>s\<in>set (tasks r). started_well cfg env data s)"
proof -
  let ?P = "\<lambda>i (st::run). map row_index (tasks st) = [0 ..< min i (length data)] \<and>
                     (\<forall>s\<in>set (tasks st). started_well cfg env data s)"
  have "\<exists>j. ?P j r \<and> length data \<le> j"
  proof (rule processUrls_from_invariant [where P = ?P])
    show "processUrls_from cfg env data 0 \<lparr> now = t, tasks = [], console_error = [] \<rparr> = Some r"
      using assms by (simp add: processUrls_def)
    show "?P 0 \<lparr> now = t, tasks = [], console_error = [] \<rparr>"
      by simp
  next
    fix i and st :: run
    assume P: "?P i st" and i: "i < length data"
    have "i \<le> min (i + CHUNK_SIZE cfg) (length data)"
      using i by simp
    then obtain k where k: "min (i + CHUNK_SIZE cfg) (length data) = i + k"
      using le_Suc_ex by blast
    have "[0 ..< min i (length data)] @ [i ..< min (i + CHUNK_SIZE cfg) (length data)] =
          [0 ..< min (i + CHUNK_SIZE cfg) (length data)]"
      unfolding k using i upt_add_eq_append [of 0 i k] by simp
    with P i show "?P (i + CHUNK_SIZE cfg) (process_chunk cfg env data i st)"
      by (auto simp: process_chunk_tasks comp_def started_well_def)
  qed
  then show ?thesis by (auto simp: min_def)
qed

lemma chunk_callback_missing:
  "missing_columns cfg item \<Longrightarrow> chunk_callback cfg env item t = Skipped"
  by (auto simp: missing_columns_def chunk_callback_def Let_def)

lemma chunk_callback_started:
  "\<not> missing_columns cfg item \<Longrightarrow> chunk_callback cfg env item t \<noteq> Skipped"
  by (auto simp: missing_columns_def chunk_callback_def Let_def)

lemma concat_map_filter_nonempty:
  "(\<And>x. x \<in> set xs \<Longrightarrow> \<not> P x \<Longrightarrow> f x = []) \<Longrightarrow>
   concat (map f (filter P xs)) = concat (map f xs)"
  by (induction xs) auto

lemma length_concat_completion:
  "length (concat (map completion ts)) \<le> length (filter (\<lambda>s. task s \<noteq> Skipped) ts)"
  by (induction ts) (auto split: task.splits promise.splits)

lemma filter_rows_by_index:
  "length (filter (\<lambda>k. P (data ! k)) [0 ..< length data]) = length (filter P data)"
proof -
  have "filter P data = filter P (map (\<lambda>k. data ! k) [0 ..< length data])"
    by (simp add: map_nth)
  also have "\<dots> = map (\<lambda>k. data ! k) (filter (\<lambda>k. P (data ! k)) [0 ..< length data])"
    by (simp add: filter_map comp_def)
  finally show ?thesis by simp
qed

text \<open>
  Claim C8. In a run that returns, every row of the input has exactly one callback, and
  the callback of a row whose source or destination is empty or absent is \<open>Skipped\<close>: it
  starts no resolution. Leaving these callbacks out changes neither the network activity
  of the run nor the report at any time, so such a row issues no fetch and adds nothing to
  \<open>total\<close>, \<open>valid\<close>, \<open>invalid\<close> or the outcomes; \<open>total\<close> never exceeds the number of
  rows that have both URLs.
\<close>

theorem skipped_rows_contribute_nothing:
  assumes "processUrls cfg env data t = Some r"
  shows "map row_index (tasks r) = [0 ..< length data] \<and>
         (\<forall>s\<in>set (tasks r). missing_columns cfg (data ! row_index s) \<longrightarrow> task s = Skipped) \<and>
         activity (tasks r) =
           activity (filter (\<lambda>s. \<not> missing_columns cfg (data ! row_index s)) (tasks r)) \<and>
         (\<forall>report T. report_at report (tasks r) T =
            report_at report (filter (\<lambda>s. \<not> missing_columns cfg (data ! row_index s)) (tasks r)) T) \<and>
         (\<forall>T. total (result (report_at empty_report (tasks r) T)) \<le>
                length (filter (\<lambda>item. \<not> missing_columns cfg item) data))"
proof -
  let ?keep = "\<lambda>s. \<not> missing_columns cfg (data ! row_index s)"
  from processUrls_tasks [OF assms] have
    idx: "map row_index (tasks r) = [0 ..< length data]" and
    well: "\<forall>s\<in>set (tasks r). started_well cfg env data s"
    by simp_all
  have skip: "task s = Skipped" if "s \<in> set (tasks r)" "\<not> ?keep s" for s
    using that well by (simp add: started_well_def chunk_callback_missing)
  have kept: "?keep s" if "s \<in> set (tasks r)" "task s \<noteq> Skipped" for s
    using that skip by blast
  have act: "activity (tasks r) = activity (filter ?keep (tasks r))"
    unfolding activity_def
    by (rule concat_map_filter_nonempty [symmetric]) (simp add: skip)
  have comp: "concat (map completion (filter ?keep (tasks r))) = concat (map completion (tasks r))"
    by (rule concat_map_filter_nonempty) (simp add: skip)
  have rep: "report_at report (tasks r) T = report_at report (filter ?keep (tasks r)) T"
    for report T
    by (simp add: report_at_def completions_def comp)
  have "length (filter (\<lambda>s. task s \<noteq> Skipped) (tasks r)) \<le> length (filter ?keep (tasks r))"
  proof -
    have "filter (\<lambda>s. task s \<noteq> Skipped) (tasks r) =
          filter (\<lambda>s. task s \<noteq> Skipped) (filter ?keep (tasks r))"
      using kept by (auto intro: filter_cong)
    then show ?thesis
      by (metis length_filter_le)
  qed
  also have "length (filter ?keep (tasks r)) =
             length (filter (\<lambda>k. \<not> missing_columns cfg (data ! k)) (map row_index (tasks r)))"
    by (simp add: filter_map comp_def)
  also have "\<dots> = length (filter (\<lambda>item. \<not> missing_columns cfg item) data)"
    unfolding idx by (rule filter_rows_by_index)
  finally have started: "length (filter (\<lambda>s. task s \<noteq> Skipped) (tasks r)) \<le>
                         length (filter (\<lambda>item. \<not> missing_columns cfg item) data)" .
  have tot: "total (result (report_at empty_report (tasks r) T)) \<le>
             length (filter (\<lambda>item. \<not> missing_columns cfg item) data)" for T
  proof -
    have "total (result (report_at empty_report (tasks r) T)) =
          length (filter (\<lambda>c. fst c \<le> T) (completions (tasks r)))"
      by (simp add: report_at_def foldl_record_total empty_report_def)
    also have "\<dots> \<le> length (completions (tasks r))"
      by (rule length_filter_le)
    also have "\<dots> = length (concat (map completion (tasks r)))"
      by (simp add: completions_def)
    also have "\<dots> \<le> length (filter (\<lambda>s. task s \<noteq> Skipped) (tasks r))"
      by (rule length_concat_completion)
    finally show ?thesis using started by simp
  qed
  show ?thesis
    using idx skip act rep tot by blast
qed

lemma site_missing:
  "missing_columns CONFIG (site_data ! 4)" "missing_columns CONFIG (site_data ! 5)"
  by (simp_all add: site_data_def missing_columns_def CONFIG_fields truthy_def)

theorem skipped_rows_contribute_nothing_witness:
  "map row_index site_tasks = [0 ..< length site_data] \<and>
   task (site_tasks ! 4) = Skipped \<and> task (site_tasks ! 5) = Skipped \<and>
   total (result (report_at empty_report site_tasks 6000)) \<le> 7"
proof -
  let ?r = "\<lparr> now = 4030, tasks = site_tasks, console_error = [NetworkError ''ENOTFOUND''] \<rparr>"
  note T = skipped_rows_contribute_nothing [OF processUrls_site, unfolded run.select_convs]
  have mem: "site_tasks ! 4 \<in> set site_tasks" "site_tasks ! 5 \<in> set site_tasks"
    by (simp_all add: site_tasks_def)
  have row: "row_index (site_tasks ! 4) = 4" "row_index (site_tasks ! 5) = 5"
    by (simp_all add: site_tasks_def)
  have n: "length (filter (\<lambda>item. \<not> missing_columns CONFIG item) site_data) = 7"
    by (simp add: site_data_def missing_columns_def CONFIG_fields truthy_def)
  from T have a: "map row_index site_tasks = [0 ..< length site_data]"
    by simp
  from T mem row site_missing have b: "task (site_tasks ! 4) = Skipped" "task (site_tasks ! 5) = Skipped"
    by auto
  from T have "\<forall>T. total (result (report_at empty_report site_tasks T)) \<le>
                length (filter (\<lambda>item. \<not> missing_columns CONFIG item) site_data)"
    by blast
  then have c: "total (result (report_at empty_report site_tasks 6000)) \<le> 7"
    unfolding n by blast
  show ?thesis using a b c by simp
qed

subsection \<open>The final report\<close>

lemma insert_sorted_set: "set (insert_sorted cmp x xs) = insert x (set xs)"
  by (induction xs) auto

lemma insert_sorted_sorted:
  assumes total: "\<And>a b. cmp a b \<le> 0 \<or> cmp b a \<le> 0"
    and trans: "\<And>a b c. cmp a b \<le> 0 \<Longrightarrow> cmp b c \<le> 0 \<Longrightarrow> cmp a c \<le> 0"
  shows "sorted_wrt (\<lambda>a b. cmp a b \<le> 0) xs \<Longrightarrow>
         sorted_wrt (\<lambda>a b. cmp a b \<le> 0) (insert_sorted cmp x xs)"
proof (induction xs)
  case Nil
  show ?case by simp
next
  case (Cons y ys)
  show ?case
  proof (cases "cmp x y \<le> 0")
    case True
    with Cons.prems trans show ?thesis by auto
  next
    case False
    with total have "cmp y x \<le> 0" by blast
    with False Cons show ?thesis by (auto simp: insert_sorted_set)
  qed
qed

lemma Array_sort_sorted:
  assumes total: "\<And>a b. cmp a b \<le> 0 \<or> cmp b a \<le> 0"
    and trans: "\<And>a b c. cmp a b \<le> 0 \<Longrightarrow> cmp b c \<le> 0 \<Longrightarrow> cmp a c \<le> 0"
  shows "sorted_wrt (\<lambda>a b. cmp a b \<le> 0) (Array_sort cmp xs)"
  unfolding Array_sort_def
  by (induction xs) (simp_all add: insert_sorted_sorted [OF total trans])

lemma compare_urls_le:
  "compare_urls env a b \<le> 0 \<longleftrightarrow>
     (if is_valid a \<noteq> is_valid b then \<not> is_valid a
      else localeCompare env (source a) (source b) \<le> 0)"
  by (simp add: compare_urls_def)

lemma compare_urls_total:
  assumes "\<And>a b. localeCompare env a b \<le> 0 \<or> localeCompare env b a \<le> 0"
  shows "compare_urls env a b \<le> 0 \<or> compare_urls env b a \<le> 0"
  using assms [of "source a" "source b"] by (auto simp: compare_urls_le)

lemma compare_urls_trans:
  assumes "\<And>a b c. localeCompare env a b \<le> 0 \<Longrightarrow> localeCompare env b c \<le> 0 \<Longrightarrow>
             localeCompare env a c \<le> 0"
    and "compare_urls env a b \<le> 0" "compare_urls env b c \<le> 0"
  shows "compare_urls env a c \<le> 0"
  using assms(2,3) assms(1) [of "source a" "source b" "source c"]
  by (auto simp: compare_urls_le split: if_splits)

text \<open>
  Claim C9. Let \<open>localeCompare\<close> be a consistent comparator (any two strings are comparable,
  and the comparison is transitive). Then in the final report no valid outcome precedes an
  invalid one, and of two outcomes of equal validity the earlier one compares at most equal
  to the later one by \<open>localeCompare\<close> of their sources. The final report has the summary of
  the report it is built from and the same outcomes, each with its status mark. What
  \<open>main\<close> writes is the final report of the report as it stands when \<open>processUrls\<close>
  returns.
\<close>

theorem finalReport_sorted:
  assumes total: "\<forall>a b. localeCompare env a b \<le> 0 \<or> localeCompare env b a \<le> 0"
    and trans: "\<forall>a b c. localeCompare env a b \<le> 0 \<and> localeCompare env b c \<le> 0 \<longrightarrow>
                  localeCompare env a c \<le> 0"
  shows "(\<forall>i j. i < j \<and> j < length (urls (finalReport env report)) \<longrightarrow>
            (is_valid (urls (finalReport env report) ! i) \<longrightarrow>
               is_valid (urls (finalReport env report) ! j)) \<and>
            (is_valid (urls (finalReport env report) ! i) =
               is_valid (urls (finalReport env report) ! j) \<longrightarrow>
               localeCompare env (source (urls (finalReport env report) ! i))
                 (source (urls (finalReport env report) ! j)) \<le> 0)) \<and>
         result (finalReport env report) = result report \<and>
         mset (urls (finalReport env report)) = mset (map format_url (urls report)) \<and>
         (\<forall>cfg stream t e w. main cfg env stream t = Some e \<and> written e = Some w \<longrightarrow>
            (\<exists>data r. getData cfg stream = Some (Resolved data) \<and>
               processUrls cfg env data t = Some r \<and>
               w = finalReport env (report_at empty_report (tasks r) (now r))))"
proof -
  let ?w = "finalReport env report"
  have urls: "urls ?w = Array_sort (compare_urls env) (map format_url (urls report))"
    and res: "result ?w = result report"
    by (simp_all add: finalReport_def Let_def)
  have tot: "compare_urls env a b \<le> 0 \<or> compare_urls env b a \<le> 0" for a b :: formatted
    using total by (intro compare_urls_total) blast
  have tr: "compare_urls env a c \<le> 0"
    if "compare_urls env a b \<le> 0" "compare_urls env b c \<le> 0" for a b c :: formatted
    by (rule compare_urls_trans [OF _ that]) (use trans in blast)
  have sorted: "sorted_wrt (\<lambda>a b. compare_urls env a b \<le> 0) (urls ?w)"
    unfolding urls by (rule Array_sort_sorted [OF tot tr])
  have pair: "(is_valid (urls ?w ! i) \<longrightarrow> is_valid (urls ?w ! j)) \<and>
              (is_valid (urls ?w ! i) = is_valid (urls ?w ! j) \<longrightarrow>
                 localeCompare env (source (urls ?w ! i)) (source (urls ?w ! j)) \<le> 0)"
    if "i < j" "j < length (urls ?w)" for i j
  proof -
    from sorted that have "compare_urls env (urls ?w ! i) (urls ?w ! j) \<le> 0"
      by (simp add: sorted_wrt_iff_nth_less)
    then show ?thesis
      unfolding compare_urls_le by (simp split: if_splits)
  qed
  have ms: "mset (urls ?w) = mset (map format_url (urls report))"
    unfolding urls by (rule Array_sort_mset)
  have m: "\<exists>data r. getData cfg stream = Some (Resolved data) \<and>
               processUrls cfg env data t = Some r \<and>
               w = finalReport env (report_at empty_report (tasks r) (now r))"
    if "main cfg env stream t = Some e" "written e = Some w" for cfg stream t e w
    using that by (auto simp: main_def split: promise.splits option.splits)
  show ?thesis
    using pair res ms m by blast
qed

lemma lex_compare_total: "lex_compare a b \<le> 0 \<or> lex_compare b a \<le> 0"
  by (induction a b rule: lex_compare.induct) auto

lemma lex_compare_trans:
  "lex_compare a b \<le> 0 \<Longrightarrow> lex_compare b c \<le> 0 \<Longrightarrow> lex_compare a c \<le> 0"
proof (induction a b arbitrary: c rule: lex_compare.induct)
  case 1
  then show ?case by simp
next
  case (2 y ys)
  then show ?case by (cases c) auto
next
  case (3 x xs)
  then show ?case by simp
next
  case (4 x xs y ys)
  show ?case
  proof (cases c)
    case Nil
    with "4.prems" show ?thesis by simp
  next
    case (Cons z zs)
    with "4.prems" "4.IH" [of zs] show ?thesis
      by (auto split: if_splits)
  qed
qed

theorem finalReport_sorted_witness:
  "finalReport site_env site_report = site_final \<and>
   map (\<lambda>u. (is_valid u, source u)) (urls site_final) =
     [(False, ''http://a.example/old''), (False, ''http://b.example/old''),
      (False, ''https://a.example/new''), (True, ''http://a.example/old''),
      (True, ''http://a.example/old'')] \<and>
   lex_compare (source (urls site_final ! 0)) (source (urls site_final ! 1)) \<le> 0 \<and>
   lex_compare (source (urls site_final ! 1)) (source (urls site_final ! 2)) \<le> 0 \<and>
   is_valid (urls site_final ! 4) \<and>
   result site_final = result site_report \<and>
   mset (urls site_final) = mset (map format_url (urls site_report))"
proof -
  have total: "\<forall>a b. localeCompare site_env a b \<le> 0 \<or> localeCompare site_env b a \<le> 0"
    by (simp add: site_env_def lex_compare_total)
  have trans: "\<forall>a b c. localeCompare site_env a b \<le> 0 \<and> localeCompare site_env b c \<le> 0 \<longrightarrow>
                  localeCompare site_env a c \<le> 0"
    using lex_compare_trans by (simp add: site_env_def) blast
  note T = finalReport_sorted [OF total trans, of site_report, unfolded finalReport_site]
  have lc: "localeCompare site_env = lex_compare"
    by (simp add: site_env_def)
  have vals: "map (\<lambda>u. (is_valid u, source u)) (urls site_final) =
     [(False, ''http://a.example/old''), (False, ''http://b.example/old''),
      (False, ''https://a.example/new''), (True, ''http://a.example/old''),
      (True, ''http://a.example/old'')]"
    by (simp add: site_final_def marked_fields a_outcome_def b_outcome_def direct_outcome_def)
  have len: "length (urls site_final) = 5"
    by (simp add: site_final_def)
  have v: "\<not> is_valid (urls site_final ! 0)" "\<not> is_valid (urls site_final ! 1)"
          "\<not> is_valid (urls site_final ! 2)" "is_valid (urls site_final ! 3)"
    by (simp_all add: site_final_def marked_fields a_outcome_def b_outcome_def direct_outcome_def)
  from T have P: "\<And>i j. i < j \<Longrightarrow> j < 5 \<Longrightarrow>
            (is_valid (urls site_final ! i) \<longrightarrow> is_valid (urls site_final ! j)) \<and>
            (is_valid (urls site_final ! i) = is_valid (urls site_final ! j) \<longrightarrow>
               lex_compare (source (urls site_final ! i)) (source (urls site_final ! j)) \<le> 0)"
    unfolding len lc by blast
  have a: "lex_compare (source (urls site_final ! 0)) (source (urls site_final ! 1)) \<le> 0"
    using P [of 0 1] v by simp
  have b: "lex_compare (source (urls site_final ! 1)) (source (urls site_final ! 2)) \<le> 0"
    using P [of 1 2] v by simp
  have c: "is_valid (urls site_final ! 4)"
    using P [of 3 4] v by simp
  from T have d: "result site_final = result site_report"
    "mset (urls site_final) = mset (map format_url (urls site_report))"
    by blast+
  show ?thesis
    using finalReport_site vals a b c d by blast
qed

subsection \<open>Input errors\<close>

lemma activity_all_skipped:
  "(\<And>s. s \<in> set ts \<Longrightarrow> task s = Skipped) \<Longrightarrow> activity ts = []"
  by (induction ts) (simp_all add: activity_def)

lemma completions_all_skipped:
  "(\<And>s. s \<in> set ts \<Longrightarrow> task s = Skipped) \<Longrightarrow> completions ts = []"
  by (induction ts) (simp_all add: completions_def)

lemma finalReport_empty:
  "finalReport env empty_report = \<lparr> result = \<lparr> valid = 0, invalid = 0, total = 0 \<rparr>, urls = [] \<rparr>"
  by (simp add: finalReport_def empty_report_def Array_sort_def)

text \<open>
  A failing read stream is not among the input errors the program handles: the promise of
  \<open>getData\<close> is then never settled, so \<open>main\<close> neither writes a report nor reaches the
  \<open>process.exit(1)\<close> of its \<open>catch\<close>.
\<close>

lemma main_read_failed:
  "getData cfg (ReadFailed rows err) = None \<and> main cfg env (ReadFailed rows err) t = None"
  by (simp add: getData_def main_def)

text \<open>
  Claim C6, as amended. \<open>getData\<close> rejects exactly when the parser ends without a single
  row (or emits an error itself); then \<open>main\<close> ends with exit status 1, having written
  nothing and with no network activity. A file with at least one row is accepted with all
  its rows, those without the required columns included: \<open>getData\<close> only prints a warning
  for them. A run on such a file that returns ends with exit status 0 and a written
  report, and it does return when the chunk size is positive (every request ends, in this
  model); when no row has both columns the report is the empty one and nothing is fetched.
\<close>

theorem getData_fatal_only_without_rows:
  "(getData cfg stream = Some (Rejected e) \<longleftrightarrow>
      stream = Ended [] \<and> e = NoDataFound \<or>
      (\<exists>rows err. stream = Errored rows err \<and> e = StreamError err)) \<and>
   (getData cfg stream = Some (Rejected e) \<longrightarrow>
      main cfg env stream t =
        Some \<lparr> exit_status = 1, main_error = Some e, written = None, network = [] \<rparr>) \<and>
   (rows \<noteq> [] \<longrightarrow>
      getData cfg (Ended rows) = Some (Resolved rows) \<and>
      getData_warnings cfg (Ended rows) = filter (missing_columns cfg) rows) \<and>
   (rows \<noteq> [] \<and> main cfg env (Ended rows) t = Some e' \<longrightarrow>
      exit_status e' = 0 \<and> main_error e' = None \<and> written e' \<noteq> None) \<and>
   (rows \<noteq> [] \<and> 0 < CHUNK_SIZE cfg \<longrightarrow> (\<exists>e'. main cfg env (Ended rows) t = Some e')) \<and>
   (rows \<noteq> [] \<and> (\<forall>item\<in>set rows. missing_columns cfg item) \<and>
    main cfg env (Ended rows) t = Some e' \<longrightarrow>
      network e' = [] \<and>
      written e' = Some \<lparr> result = \<lparr> valid = 0, invalid = 0, total = 0 \<rparr>, urls = [] \<rparr>)"
proof -
  have a: "getData cfg stream = Some (Rejected e) \<longleftrightarrow>
      stream = Ended [] \<and> e = NoDataFound \<or>
      (\<exists>rows err. stream = Errored rows err \<and> e = StreamError err)"
    by (cases stream) (auto simp: getData_def)
  have b: "main cfg env stream t =
        Some \<lparr> exit_status = 1, main_error = Some e, written = None, network = [] \<rparr>"
    if "getData cfg stream = Some (Rejected e)"
    using that by (simp add: main_def)
  have c: "getData cfg (Ended rows) = Some (Resolved rows)" if "rows \<noteq> []"
    using that by (simp add: getData_def)
  have c': "getData_warnings cfg (Ended rows) = filter (missing_columns cfg) rows"
    by (simp add: getData_warnings_def)
  have d: "exit_status e' = 0 \<and> main_error e' = None \<and> written e' \<noteq> None"
    if "rows \<noteq> []" "main cfg env (Ended rows) t = Some e'"
    using that by (auto simp: main_def c split: option.splits)
  have e: "\<exists>e'. main cfg env (Ended rows) t = Some e'" if "rows \<noteq> []" "0 < CHUNK_SIZE cfg"
  proof -
    from processUrls_from_returns [OF that(2)] obtain r where
      "processUrls cfg env rows t = Some r"
      unfolding processUrls_def by blast
    then show ?thesis
      by (simp add: main_def c [OF that(1)])
  qed
  have f: "network e' = [] \<and>
      written e' = Some \<lparr> result = \<lparr> valid = 0, invalid = 0, total = 0 \<rparr>, urls = [] \<rparr>"
    if ne: "rows \<noteq> []" and miss: "\<forall>item\<in>set rows. missing_columns cfg item"
       and m: "main cfg env (Ended rows) t = Some e'"
  proof -
    note g = c [OF ne]
    from m obtain r where
      r: "processUrls cfg env rows t = Some r" and
      e': "e' = \<lparr> exit_status = 0, main_error = None,
                  written = Some (finalReport env (report_at empty_report (tasks r) (now r))),
                  network = activity (tasks r) \<rparr>"
      by (auto simp: main_def g split: option.splits)
    from processUrls_tasks [OF r] have
      well: "\<forall>s\<in>set (tasks r). started_well cfg env rows s" by simp
    have skip: "task s = Skipped" if "s \<in> set (tasks r)" for s
      using that well miss
      by (auto simp: started_well_def chunk_callback_missing)
    have "report_at empty_report (tasks r) (now r) = empty_report"
      by (simp add: report_at_def completions_all_skipped [OF skip])
    then show ?thesis
      unfolding e' by (simp add: activity_all_skipped [OF skip] finalReport_empty)
  qed
  show ?thesis
    using a b c c' d e f by blast
qed

lemma processUrls_one_skipped:
  "processUrls CONFIG site_env [[''destination'' \<mapsto> ''https://a.example/new'']] 0 =
     Some \<lparr> now = 2000, tasks = [\<lparr> row_index = 0, started_at = 0, task = Skipped \<rparr>],
            console_error = [] \<rparr>"
proof -
  let ?data = "[[''destination'' \<mapsto> ''https://a.example/new'']] :: row list"
  let ?st1 = "\<lparr> now = 2000, tasks = [\<lparr> row_index = 0, started_at = 0, task = Skipped \<rparr>],
                console_error = [] \<rparr>"
  have c1: "process_chunk CONFIG site_env ?data 0 \<lparr> now = 0, tasks = [], console_error = [] \<rparr> = ?st1"
    by (simp add: process_chunk_def CONFIG_fields Let_def chunk_callback_site Promise_all_def)
  have s1: "processUrls_from CONFIG site_env ?data 8 ?st1 = Some ?st1"
    by (subst processUrls_from.simps) simp
  show ?thesis
    unfolding processUrls_def
    by (subst processUrls_from.simps) (simp add: CONFIG_fields c1 s1)
qed

theorem getData_missing_column_counterexample:
  "missing_columns CONFIG [''destination'' \<mapsto> ''https://a.example/new''] \<and>
   getData CONFIG (Ended [[''destination'' \<mapsto> ''https://a.example/new'']]) =
     Some (Resolved [[''destination'' \<mapsto> ''https://a.example/new'']]) \<and>
   main CONFIG site_env (Ended [[''destination'' \<mapsto> ''https://a.example/new'']]) 0 =
     Some \<lparr> exit_status = 0, main_error = None,
            written = Some \<lparr> result = \<lparr> valid = 0, invalid = 0, total = 0 \<rparr>, urls = [] \<rparr>,
            network = [] \<rparr>"
proof -
  have m: "missing_columns CONFIG [''destination'' \<mapsto> ''https://a.example/new'']"
    by (simp add: missing_columns_def CONFIG_fields truthy_def)
  have g: "getData CONFIG (Ended [[''destination'' \<mapsto> ''https://a.example/new'']]) =
     Some (Resolved [[''destination'' \<mapsto> ''https://a.example/new'']])"
    by (simp add: getData_def)
  have r: "report_at empty_report [\<lparr> row_index = 0, started_at = 0, task = Skipped \<rparr>] 2000 =
             empty_report"
    by (simp add: report_at_def completions_def)
  show ?thesis
    using m g
    by (simp add: main_def processUrls_one_skipped r finalReport_empty activity_def)
qed

theorem getData_fatal_only_without_rows_witness:
  "getData CONFIG (Ended []) = Some (Rejected NoDataFound) \<and>
   main CONFIG site_env (Ended []) 0 =
     Some \<lparr> exit_status = 1, main_error = Some NoDataFound, written = None, network = [] \<rparr> \<and>
   getData CONFIG (Ended site_data) = Some (Resolved site_data) \<and>
   length (getData_warnings CONFIG (Ended site_data)) = 2 \<and>
   (\<exists>e'. main CONFIG site_env (Ended site_data) 0 = Some e' \<and> exit_status e' = 0 \<and>
      main_error e' = None \<and> written e' \<noteq> None) \<and>
   list_all (missing_columns CONFIG) unusable_data \<and>
   (\<exists>e'. main CONFIG site_env (Ended unusable_data) 0 = Some e' \<and> exit_status e' = 0 \<and>
      network e' = [] \<and>
      written e' = Some \<lparr> result = \<lparr> valid = 0, invalid = 0, total = 0 \<rparr>, urls = [] \<rparr>)"
proof -
  note T = getData_fatal_only_without_rows
  have r1: "getData CONFIG (Ended []) = Some (Rejected NoDataFound)"
    using T [of CONFIG "Ended []" NoDataFound] by simp
  have a: "main CONFIG site_env (Ended []) 0 =
     Some \<lparr> exit_status = 1, main_error = Some NoDataFound, written = None, network = [] \<rparr>"
    using T [of CONFIG "Ended []" NoDataFound site_env 0] r1 by blast
  have ne: "site_data \<noteq> []"
    by (simp add: site_data_def)
  have c: "getData CONFIG (Ended site_data) = Some (Resolved site_data)"
    "getData_warnings CONFIG (Ended site_data) = filter (missing_columns CONFIG) site_data"
    using T [where cfg = CONFIG and rows = site_data] ne by blast+
  have n: "length (filter (missing_columns CONFIG) site_data) = 2"
    by (simp add: site_data_def missing_columns_def CONFIG_fields truthy_def)
  have cs: "0 < CHUNK_SIZE CONFIG"
    by (simp add: CONFIG_fields)
  from T [where cfg = CONFIG and rows = site_data and env = site_env and t = 0] ne cs
  obtain e' where e': "main CONFIG site_env (Ended site_data) 0 = Some e'"
    by blast
  from T [where cfg = CONFIG and rows = site_data and env = site_env and t = 0 and e' = e'] ne e'
  have "exit_status e' = 0 \<and> main_error e' = None \<and> written e' \<noteq> None"
    by blast
  with e' have d: "\<exists>e'. main CONFIG site_env (Ended site_data) 0 = Some e' \<and> exit_status e' = 0 \<and>
      main_error e' = None \<and> written e' \<noteq> None"
    by blast
  have une: "unusable_data \<noteq> []"
    by (simp add: unusable_data_def)
  have miss: "list_all (missing_columns CONFIG) unusable_data"
    by (simp add: unusable_data_def missing_columns_def CONFIG_fields truthy_def)
  then have miss': "\<forall>item\<in>set unusable_data. missing_columns CONFIG item"
    by (simp add: list_all_iff)
  from T [where cfg = CONFIG and rows = unusable_data and env = site_env and t = 0] une cs
  obtain u' where u': "main CONFIG site_env (Ended unusable_data) 0 = Some u'"
    by blast
  from T [where cfg = CONFIG and rows = unusable_data and env = site_env and t = 0 and e' = u']
    une miss' u'
  have "exit_status u' = 0 \<and> network u' = [] \<and>
      written u' = Some \<lparr> result = \<lparr> valid = 0, invalid = 0, total = 0 \<rparr>, urls = [] \<rparr>"
    by blast
  with u' have f: "\<exists>e'. main CONFIG site_env (Ended unusable_data) 0 = Some e' \<and>
      exit_status e' = 0 \<and> network e' = [] \<and>
      written e' = Some \<lparr> result = \<lparr> valid = 0, invalid = 0, total = 0 \<rparr>, urls = [] \<rparr>"
    by blast
  show ?thesis
    using r1 a c n d miss f by simp
qed

subsection \<open>A failed resolution and the next chunk\<close>

text \<open>
  Claim C5, at a failing input. With the default configuration and the nine rows of
  \<open>site_data\<close>, the resolution of row 0 is rejected after 10 ms (\<open>ENOTFOUND\<close>), which
  rejects \<open>Promise.all\<close> at once; the error is logged and after the chunk delay the second
  chunk (row 8) starts at 2010 ms, while the resolution of row 1, of the first chunk, only
  settles at 5010 ms. \<open>processUrls\<close> returns at 4030 ms, so the report that \<open>main\<close> writes
  lacks the outcome of row 1.
\<close>

theorem processUrls_next_chunk_starts_early:
  "processUrls CONFIG site_env site_data 0 =
     Some \<lparr> now = 4030, tasks = site_tasks, console_error = [NetworkError ''ENOTFOUND''] \<rparr> \<and>
   site_tasks ! 0 = \<lparr> row_index = 0, started_at = 0, task = Checked (rejected_gone 0) \<rparr> \<and>
   rejection (Checked (rejected_gone 0)) = Some (10, NetworkError ''ENOTFOUND'') \<and>
   site_tasks ! 1 = \<lparr> row_index = 1, started_at = 0, task = Checked (resolved_slow 0) \<rparr> \<and>
   settled (resolved_slow 0) = Resolved slow_outcome \<and>
   settled_at (resolved_slow 0) = 5010 \<and>
   row_index (site_tasks ! 8) = 8 \<and> started_at (site_tasks ! 8) = 2010 \<and>
   main CONFIG site_env (Ended site_data) 0 =
     Some \<lparr> exit_status = 0, main_error = None, written = Some site_final,
            network = activity site_tasks \<rparr> \<and>
   length (urls site_final) = 5 \<and> length site_data = 9"
  by (simp add: processUrls_site main_site)
     (simp add: site_tasks_def rejected_gone_def resolved_slow_def site_final_def site_data_def)

subsection \<open>An unparseable URL and the rest of its chunk\<close>

lemma URL_site_env_malformed: "URL site_env ''a.example/old'' = None"
  unfolding site_env_def by simp code_simp

lemma checkURL_malformed:
  "checkURL CONFIG site_env ''a.example/old'' dest 3 t = rejected_malformed t"
  using getHeaders_unparseable [OF URL_site_env_malformed, of CONFIG]
  by (simp add: rejected_malformed_def)

lemma chunk_callback_malformed:
  "chunk_callback CONFIG site_env
     [''src'' \<mapsto> ''a.example/old'', ''destination'' \<mapsto> ''https://a.example/new''] t =
     Checked (rejected_malformed t)"
  by (simp add: chunk_callback_def CONFIG_fields truthy_def checkURL_malformed Let_def)

lemma processUrls_malformed:
  "processUrls CONFIG site_env malformed_data 0 =
     Some \<lparr> now = 2000, tasks = malformed_tasks,
            console_error = [InvalidURL ''a.example/old''] \<rparr>"
proof -
  let ?st0 = "\<lparr> now = 0, tasks = [], console_error = [] \<rparr>"
  let ?st1 = "\<lparr> now = 2000, tasks = malformed_tasks,
                console_error = [InvalidURL ''a.example/old''] \<rparr>"
  have len: "length malformed_data = 2"
    by (simp add: malformed_data_def)
  have c1: "process_chunk CONFIG site_env malformed_data 0 ?st0 = ?st1"
    by (simp add: process_chunk_def malformed_data_def malformed_tasks_def CONFIG_fields Let_def
          chunk_callback_site chunk_callback_malformed Promise_all_def rejected_malformed_def
          resolved_slow_def)
  have s1: "processUrls_from CONFIG site_env malformed_data 8 ?st1 = Some ?st1"
    by (subst processUrls_from.simps) (simp add: len)
  show ?thesis
    unfolding processUrls_def
    by (subst processUrls_from.simps) (simp add: len CONFIG_fields c1 s1)
qed

lemma processUrls_slow_alone:
  "processUrls CONFIG site_env slow_data 0 =
     Some \<lparr> now = 7010, tasks = slow_tasks, console_error = [] \<rparr>"
proof -
  let ?st0 = "\<lparr> now = 0, tasks = [], console_error = [] \<rparr>"
  let ?st1 = "\<lparr> now = 7010, tasks = slow_tasks, console_error = [] \<rparr>"
  have len: "length slow_data = 1"
    by (simp add: slow_data_def)
  have c1: "process_chunk CONFIG site_env slow_data 0 ?st0 = ?st1"
    by (simp add: process_chunk_def slow_data_def slow_tasks_def CONFIG_fields Let_def
          chunk_callback_site Promise_all_def resolved_slow_def)
  have s1: "processUrls_from CONFIG site_env slow_data 8 ?st1 = Some ?st1"
    by (subst processUrls_from.simps) (simp add: len)
  show ?thesis
    unfolding processUrls_def
    by (subst processUrls_from.simps) (simp add: len CONFIG_fields c1 s1)
qed

text \<open>
  Claim C7, at a failing input. With the default configuration, let the first row of a
  chunk have the source \<open>a.example/old\<close>, which the URL constructor rejects, and the second
  row the slow permanent redirect. \<open>getHeaders\<close> rejects the first source at once, without
  a request or a wait, and so does its resolution. That rejection rejects \<open>Promise.all\<close> at
  time 0: the error is logged and \<open>processUrls\<close> returns after the chunk delay, at 2000 ms,
  while the resolution of the second row only resolves at 5010 ms. The report that \<open>main\<close>
  writes has no entry at all, where the run on the second row alone reports it as valid:
  the failure did not stay one of its pair.
\<close>

theorem processUrls_unparseable_row_loses_sibling:
  "URL site_env ''a.example/old'' = None \<and>
   getHeaders CONFIG site_env ''a.example/old'' 0 0 =
     \<lparr> settled = Rejected (InvalidURL ''a.example/old''), settled_at = 0, trace = [] \<rparr> \<and>
   checkURL CONFIG site_env ''a.example/old'' ''https://a.example/new'' 3 0 =
     \<lparr> settled = Rejected (InvalidURL ''a.example/old''), settled_at = 0,
       trace = [GetHeaders 0 ''a.example/old''] \<rparr> \<and>
   processUrls CONFIG site_env malformed_data 0 =
     Some \<lparr> now = 2000, tasks = malformed_tasks,
            console_error = [InvalidURL ''a.example/old''] \<rparr> \<and>
   malformed_tasks ! 0 =
     \<lparr> row_index = 0, started_at = 0, task = Checked (rejected_malformed 0) \<rparr> \<and>
   rejection (Checked (rejected_malformed 0)) = Some (0, InvalidURL ''a.example/old'') \<and>
   malformed_tasks ! 1 =
     \<lparr> row_index = 1, started_at = 0, task = Checked (resolved_slow 0) \<rparr> \<and>
   settled (resolved_slow 0) = Resolved slow_outcome \<and>
   settled_at (resolved_slow 0) = 5010 \<and>
   main CONFIG site_env (Ended malformed_data) 0 =
     Some \<lparr> exit_status = 0, main_error = None,
            written = Some \<lparr> result = \<lparr> valid = 0, invalid = 0, total = 0 \<rparr>, urls = [] \<rparr>,
            network = activity malformed_tasks \<rparr> \<and>
   slow_data = tl malformed_data \<and>
   main CONFIG site_env (Ended slow_data) 0 =
     Some \<lparr> exit_status = 0, main_error = None,
            written = Some \<lparr> result = \<lparr> valid = 1, invalid = 0, total = 1 \<rparr>,
                             urls = [marked slow_outcome CHECK_MARK] \<rparr>,
            network = activity slow_tasks \<rparr>"
proof -
  have g: "getHeaders CONFIG site_env ''a.example/old'' 0 0 =
     \<lparr> settled = Rejected (InvalidURL ''a.example/old''), settled_at = 0, trace = [] \<rparr>"
    using getHeaders_unparseable [OF URL_site_env_malformed, of CONFIG] by simp
  have c: "checkURL CONFIG site_env ''a.example/old'' ''https://a.example/new'' 3 0 =
     \<lparr> settled = Rejected (InvalidURL ''a.example/old''), settled_at = 0,
       trace = [GetHeaders 0 ''a.example/old''] \<rparr>"
    by (simp add: checkURL_malformed rejected_malformed_def)
  have d1: "getData CONFIG (Ended malformed_data) = Some (Resolved malformed_data)"
    by (simp add: getData_def malformed_data_def)
  have d2: "getData CONFIG (Ended slow_data) = Some (Resolved slow_data)"
    by (simp add: getData_def slow_data_def)
  have r1: "report_at empty_report malformed_tasks 2000 = empty_report"
    by (simp add: report_at_def completions_def malformed_tasks_def rejected_malformed_def
          resolved_slow_def)
  have r2: "report_at empty_report slow_tasks 7010 =
            \<lparr> result = \<lparr> valid = 1, invalid = 0, total = 1 \<rparr>, urls = [slow_outcome] \<rparr>"
    by (simp add: report_at_def completions_def slow_tasks_def resolved_slow_def
          recordParsedURL_def empty_report_def Let_def slow_outcome_def)
  have f2: "finalReport site_env
              \<lparr> result = \<lparr> valid = 1, invalid = 0, total = 1 \<rparr>, urls = [slow_outcome] \<rparr> =
            \<lparr> result = \<lparr> valid = 1, invalid = 0, total = 1 \<rparr>,
              urls = [marked slow_outcome CHECK_MARK] \<rparr>"
    by (simp add: finalReport_def Array_sort_def format_url_def marked_def slow_outcome_def)
  have m1: "main CONFIG site_env (Ended malformed_data) 0 =
     Some \<lparr> exit_status = 0, main_error = None,
            written = Some \<lparr> result = \<lparr> valid = 0, invalid = 0, total = 0 \<rparr>, urls = [] \<rparr>,
            network = activity malformed_tasks \<rparr>"
    by (simp add: main_def d1 processUrls_malformed r1 finalReport_empty)
  have m2: "main CONFIG site_env (Ended slow_data) 0 =
     Some \<lparr> exit_status = 0, main_error = None,
            written = Some \<lparr> result = \<lparr> valid = 1, invalid = 0, total = 1 \<rparr>,
                             urls = [marked slow_outcome CHECK_MARK] \<rparr>,
            network = activity slow_tasks \<rparr>"
    by (simp add: main_def d2 processUrls_slow_alone r2 f2 del: One_nat_def)
  have t: "malformed_tasks ! 0 =
     \<lparr> row_index = 0, started_at = 0, task = Checked (rejected_malformed 0) \<rparr>"
    "rejection (Checked (rejected_malformed 0)) = Some (0, InvalidURL ''a.example/old'')"
    "malformed_tasks ! 1 =
     \<lparr> row_index = 1, started_at = 0, task = Checked (resolved_slow 0) \<rparr>"
    "settled (resolved_slow 0) = Resolved slow_outcome"
    "settled_at (resolved_slow 0) = 5010"
    "slow_data = tl malformed_data"
    by (simp_all add: malformed_tasks_def rejected_malformed_def resolved_slow_def
          slow_data_def malformed_data_def)
  show ?thesis
    using URL_site_env_malformed g c processUrls_malformed t m1 m2 by blast
qed

subsection \<open>Chunks in order\<close>

lemma getHeaders_later: "t \<le> settled_at (getHeaders cfg env u rc t)"
proof (induction cfg env u rc t rule: getHeaders.induct)
  case (1 cfg env urlToParse retryCount t)
  show ?case
  proof (cases "URL env urlToParse")
    case None
    then show ?thesis by (subst getHeaders.simps) simp
  next
    case (Some p)
    show ?thesis
    proof (cases "request env (protocolHandler p) (request_options cfg p) t")
      case (Responded ms sc loc)
      with Some show ?thesis by (subst getHeaders.simps) simp
    next
      case (Failed ms c)
      show ?thesis
      proof (cases "transient c \<and> retryCount < MAX_RETRIES cfg")
        case True
        from "1.IH" [OF Some Failed True refl] Some Failed True show ?thesis
          by (subst getHeaders.simps) (auto simp: Let_def)
      next
        case False
        with Some Failed show ?thesis by (subst getHeaders.simps) auto
      qed
    qed
  qed
qed

lemma check_later:
  "location h = Some l \<Longrightarrow> l \<noteq> [] \<Longrightarrow>
   t \<le> settled_at (check cfg env src dest maxRedirections (Some h) rl rc t)"
proof (induction "maxRedirections - rc" arbitrary: h l rl rc t rule: less_induct)
  case less
  show ?case
  proof (cases "maxRedirections \<le> Suc rc")
    case True
    show ?thesis
      unfolding check_limit [OF less.prems True] by simp
  next
    case False
    note hop = check_hop [OF less.prems False, of cfg env src dest rl t]
    note later = getHeaders_later [of t cfg env l 0]
    show ?thesis
    proof (cases "settled (getHeaders cfg env l 0 t)")
      case (Rejected e)
      with later show ?thesis unfolding hop by (simp add: Let_def)
    next
      case (Resolved h')
      show ?thesis
      proof (cases "truthy (location h')")
        case False
        with Resolved later show ?thesis unfolding hop by (simp add: Let_def)
      next
        case True
        then obtain l' where l': "location h' = Some l'" "l' \<noteq> []"
          by (auto simp: truthy_def split: option.splits)
        have "maxRedirections - Suc rc < maxRedirections - rc"
          using False by simp
        from less.hyps [OF this l'] later Resolved True show ?thesis
          unfolding hop by (simp add: Let_def) (meson le_trans)
      qed
    qed
  qed
qed

lemma checkURL_later: "t \<le> settled_at (checkURL cfg env src dest maxRedirections t)"
proof -
  note later = getHeaders_later [of t cfg env src 0]
  show ?thesis
  proof (cases "settled (getHeaders cfg env src 0 t)")
    case (Rejected e)
    with later show ?thesis unfolding checkURL_def check_start by (simp add: Let_def)
  next
    case (Resolved h')
    show ?thesis
    proof (cases "truthy (location h')")
      case False
      with Resolved later show ?thesis unfolding checkURL_def check_start by (simp add: Let_def)
    next
      case True
      then obtain l' where l': "location h' = Some l'" "l' \<noteq> []"
        by (auto simp: truthy_def split: option.splits)
      from check_later [OF l'] later Resolved True show ?thesis
        unfolding checkURL_def check_start by (simp add: Let_def) (meson le_trans)
    qed
  qed
qed

lemma chunk_callback_later: "t \<le> fulfilled_at t (chunk_callback cfg env item t)"
  by (simp add: chunk_callback_def Let_def checkURL_later)

lemma rejection_time: "rejection p = Some (at, e) \<Longrightarrow> at = fulfilled_at t p"
  by (cases p) (auto split: promise.splits)

lemma first_rejection_mem:
  "first_rejection ps = Some x \<Longrightarrow> \<exists>p\<in>set ps. rejection p = Some x"
  by (induction ps arbitrary: x) (auto split: option.splits if_splits)

lemma first_rejection_None:
  "first_rejection ps = None \<longleftrightarrow> (\<forall>p\<in>set ps. rejection p = None)"
  by (induction ps) (auto split: option.splits if_splits)

lemma fold_max_ge: "(t::nat) \<le> fold max xs t \<and> (\<forall>x\<in>set xs. x \<le> fold max xs t)"
proof (induction xs arbitrary: t)
  case Nil
  show ?case by simp
next
  case (Cons x xs)
  from Cons [of "max x t"] show ?case by auto
qed

lemma Promise_all_later:
  assumes "\<forall>p\<in>set ps. t \<le> fulfilled_at t p"
  shows "t \<le> settled_at (Promise_all t ps)"
proof (cases "first_rejection ps")
  case None
  then show ?thesis
    using fold_max_ge [of t "map (fulfilled_at t) ps"] by (simp add: Promise_all_def)
next
  case (Some x)
  obtain at e where x: "x = (at, e)" by (cases x)
  from first_rejection_mem [OF Some] obtain p where "p \<in> set ps" "rejection p = Some (at, e)"
    unfolding x by blast
  with assms rejection_time [of p at e t] have "t \<le> at" by auto
  with Some x show ?thesis by (simp add: Promise_all_def)
qed

lemma Promise_all_waits:
  assumes "\<forall>p\<in>set ps. rejection p = None" "p \<in> set ps"
  shows "fulfilled_at t p \<le> settled_at (Promise_all t ps)"
proof -
  from assms(1) have "first_rejection ps = None"
    by (simp add: first_rejection_None)
  with assms(2) fold_max_ge [of t "map (fulfilled_at t) ps"] show ?thesis
    by (simp add: Promise_all_def)
qed

lemma process_chunk_callbacks:
  assumes "i < length data"
  shows "map (\<lambda>(index, item). \<lparr> row_index = i + index, started_at = now st,
                                   task = chunk_callback cfg env item (now st) \<rparr>)
           (enumerate 0 (take (CHUNK_SIZE cfg) (drop i data))) =
         map (\<lambda>k. \<lparr> row_index = k, started_at = now st,
                      task = chunk_callback cfg env (data ! k) (now st) \<rparr>)
           [i ..< min (i + CHUNK_SIZE cfg) (length data)]"
proof -
  have len: "length (take (CHUNK_SIZE cfg) (drop i data)) =
             min (i + CHUNK_SIZE cfg) (length data) - i"
    using assms by auto
  show ?thesis
    by (rule nth_equalityI) (auto simp: len nth_enumerate_eq)
qed

lemma process_chunk_now:
  assumes "i < length data"
  shows "now (process_chunk cfg env data i st) =
     settled_at (Promise_all (now st)
       (map (\<lambda>k. chunk_callback cfg env (data ! k) (now st))
          [i ..< min (i + CHUNK_SIZE cfg) (length data)])) + CHUNK_DELAY cfg"
  unfolding process_chunk_def Let_def process_chunk_callbacks [OF assms]
  by (simp add: comp_def)

lemma processUrls_windows:
  assumes cs: "0 < CHUNK_SIZE cfg" and r: "processUrls cfg env data t = Some r"
  shows "windows_in_order cfg (tasks r)"
proof -
  let ?D = "CHUNK_DELAY cfg" and ?C = "CHUNK_SIZE cfg"
  let ?Q = "\<lambda>i (st::run). ?C dvd i \<and>
     (\<forall>s\<in>set (tasks st). row_index s < i \<and> started_at s + ?D \<le> now st \<and>
        (no_rejection_in_window cfg (tasks st) s \<longrightarrow>
           fulfilled_at (started_at s) (task s) + ?D \<le> now st)) \<and>
     windows_in_order cfg (tasks st)"
  have "\<exists>j. ?Q j r \<and> length data \<le> j"
  proof (rule processUrls_from_invariant [where P = ?Q])
    show "processUrls_from cfg env data 0 \<lparr> now = t, tasks = [], console_error = [] \<rparr> = Some r"
      using r by (simp add: processUrls_def)
    show "?Q 0 \<lparr> now = t, tasks = [], console_error = [] \<rparr>"
      by (simp add: windows_in_order_def)
  next
    fix i and st :: run
    assume Q: "?Q i st" and i: "i < length data"
    let ?m = "min (i + ?C) (length data)"
    let ?new = "map (\<lambda>k. \<lparr> row_index = k, started_at = now st,
                             task = chunk_callback cfg env (data ! k) (now st) \<rparr>) [i ..< ?m]"
    let ?ps = "map (\<lambda>k. chunk_callback cfg env (data ! k) (now st)) [i ..< ?m]"
    let ?st' = "process_chunk cfg env data i st"
    have tasks': "tasks ?st' = tasks st @ ?new"
      by (rule process_chunk_tasks [OF i])
    have now': "now ?st' = settled_at (Promise_all (now st) ?ps) + ?D"
      by (rule process_chunk_now [OF i])
    have later: "now st \<le> settled_at (Promise_all (now st) ?ps)"
      by (rule Promise_all_later) (auto simp: chunk_callback_later)
    from Q obtain q where q: "i = ?C * q" by (auto elim: dvdE)
    have win_old: "window cfg s < q" if "s \<in> set (tasks st)" for s
    proof -
      from Q that have "row_index s < ?C * q" unfolding q by blast
      then show ?thesis
        unfolding window_def using cs by (simp add: less_mult_imp_div_less mult.commute)
    qed
    have win_new: "window cfg s = q" if "s \<in> set ?new" for s
    proof -
      from that obtain k where k: "i \<le> k" "k < i + ?C" "row_index s = k" by auto
      from k(1) obtain j where j: "k = i + j" using le_Suc_ex by blast
      with k(2) have "j < ?C" by simp
      then have "(?C * q + j) div ?C = q" using cs by simp
      with k j show ?thesis by (simp add: window_def q)
    qed
    have start_new: "started_at s = now st" if "s \<in> set ?new" for s
      using that by auto
    have clean_old: "no_rejection_in_window cfg (tasks ?st') s \<longleftrightarrow>
                     no_rejection_in_window cfg (tasks st) s" if "s \<in> set (tasks st)" for s
    proof -
      have "window cfg u \<noteq> window cfg s" if "u \<in> set ?new" for u
        using win_new [OF that] win_old [OF \<open>s \<in> set (tasks st)\<close>] by simp
      then show ?thesis
        unfolding tasks' no_rejection_in_window_def by (auto simp: list_all_iff)
    qed
    have clean_new: "fulfilled_at (now st) (task s) \<le> settled_at (Promise_all (now st) ?ps)"
      if "s \<in> set ?new" "no_rejection_in_window cfg (tasks ?st') s" for s
    proof -
      have "rejection p = None" if "p \<in> set ?ps" for p
      proof -
        from that obtain k where k: "k \<in> set [i ..< ?m]"
          "p = chunk_callback cfg env (data ! k) (now st)" by auto
        define u where "u = \<lparr> row_index = k, started_at = now st, task = p \<rparr>"
        have u: "u \<in> set ?new" "task u = p"
          using k by (auto simp: u_def)
        from win_new [OF u(1)] win_new [OF \<open>s \<in> set ?new\<close>] have "window cfg u = window cfg s"
          by simp
        with \<open>no_rejection_in_window cfg (tasks ?st') s\<close> u show ?thesis
          unfolding tasks' no_rejection_in_window_def by (auto simp: list_all_iff)
      qed
      moreover from \<open>s \<in> set ?new\<close> have "task s \<in> set ?ps" by auto
      ultimately show ?thesis
        by (intro Promise_all_waits) blast+
    qed
    have dvd': "?C dvd i + ?C" using Q by simp
    have each: "row_index s < i + ?C \<and> started_at s + ?D \<le> now ?st' \<and>
        (no_rejection_in_window cfg (tasks ?st') s \<longrightarrow>
           fulfilled_at (started_at s) (task s) + ?D \<le> now ?st')"
      if "s \<in> set (tasks ?st')" for s
    proof (cases "s \<in> set (tasks st)")
      case True
      with Q clean_old [OF True] later show ?thesis
        unfolding now' by fastforce
    next
      case False
      with that have new: "s \<in> set ?new" unfolding tasks' by simp
      then have "row_index s < i + ?C" by auto
      with new later clean_new [OF new] start_new [OF new] show ?thesis
        unfolding now' by auto
    qed
    have order: "windows_in_order cfg (tasks ?st')"
      unfolding windows_in_order_def
    proof (intro ballI)
      fix s s'
      assume s: "s \<in> set (tasks ?st')" and s': "s' \<in> set (tasks ?st')"
      consider (oo) "s \<in> set (tasks st)" "s' \<in> set (tasks st)"
        | (on) "s \<in> set (tasks st)" "s' \<in> set ?new"
        | (no) "s \<in> set ?new" "s' \<in> set (tasks st)"
        | (nn) "s \<in> set ?new" "s' \<in> set ?new"
        using s s' unfolding tasks' by auto
      then show "(window cfg s = window cfg s' \<longrightarrow> started_at s = started_at s') \<and>
        (window cfg s < window cfg s' \<longrightarrow>
           started_at s + ?D \<le> started_at s' \<and>
           (no_rejection_in_window cfg (tasks ?st') s \<longrightarrow>
              fulfilled_at (started_at s) (task s) + ?D \<le> started_at s'))"
      proof cases
        case oo
        with Q clean_old [OF oo(1)] show ?thesis
          unfolding windows_in_order_def by blast
      next
        case on
        with Q clean_old [OF on(1)] win_old [OF on(1)] win_new [OF on(2)] start_new [OF on(2)]
        show ?thesis by auto
      next
        case no
        with win_old [OF no(2)] win_new [OF no(1)] show ?thesis by auto
      next
        case nn
        with win_new [OF nn(1)] win_new [OF nn(2)] start_new [OF nn(1)] start_new [OF nn(2)]
        show ?thesis by auto
      qed
    qed
    show "?Q (i + ?C) ?st'"
      using dvd' each order by blast
  qed
  then show ?thesis by blast
qed

text \<open>
  With a positive chunk size \<open>processUrls\<close> returns, whatever resolutions fail. Every row
  has exactly one callback, the one \<open>chunk_callback\<close> yields at its start time; rows are
  taken in consecutive windows of \<open>CHUNK_SIZE\<close>, and the windows are in order: a window in
  which no resolution is rejected has all its resolutions settled at least \<open>CHUNK_DELAY\<close>
  before the next window starts.
\<close>

theorem processUrls_windows_in_order:
  assumes "0 < CHUNK_SIZE cfg"
  shows "\<exists>r. processUrls cfg env data t = Some r \<and>
           map row_index (tasks r) = [0 ..< length data] \<and>
           (\<forall>s\<in>set (tasks r).
              task s = chunk_callback cfg env (data ! row_index s) (started_at s)) \<and>
           windows_in_order cfg (tasks r)"
proof -
  from processUrls_from_returns [OF assms] obtain r where
    r: "processUrls cfg env data t = Some r"
    unfolding processUrls_def by blast
  from processUrls_tasks [OF r] processUrls_windows [OF assms r] r show ?thesis
    by (auto simp: started_well_def)
qed

lemma processUrls_calm:
  "processUrls CONFIG site_env calm_data 0 =
     Some \<lparr> now = 9030, tasks = calm_tasks, console_error = [] \<rparr>"
proof -
  let ?st0 = "\<lparr> now = 0, tasks = [], console_error = [] \<rparr>"
  let ?st1 = "\<lparr> now = 7010, tasks = take 8 calm_tasks, console_error = [] \<rparr>"
  let ?st2 = "\<lparr> now = 9030, tasks = calm_tasks, console_error = [] \<rparr>"
  have len: "length calm_data = 9"
    by (simp add: calm_data_def)
  have c1: "process_chunk CONFIG site_env calm_data 0 ?st0 = ?st1"
    by (simp add: process_chunk_def calm_data_def calm_tasks_def CONFIG_fields Let_def
          chunk_callback_site Promise_all_def resolved_slow_def resolved_a_def resolved_b_def
          resolved_direct_def)
  have c2: "process_chunk CONFIG site_env calm_data 8 ?st1 = ?st2"
    by (simp add: process_chunk_def calm_data_def calm_tasks_def CONFIG_fields Let_def
          chunk_callback_site Promise_all_def resolved_slow_def resolved_a_def resolved_b_def
          resolved_direct_def)
  have s2: "processUrls_from CONFIG site_env calm_data 16 ?st2 = Some ?st2"
    by (subst processUrls_from.simps) (simp add: len)
  have s1: "processUrls_from CONFIG site_env calm_data 8 ?st1 = Some ?st2"
    by (subst processUrls_from.simps) (simp add: len CONFIG_fields c2 s2)
  show ?thesis
    unfolding processUrls_def
    by (subst processUrls_from.simps) (simp add: len CONFIG_fields c1 s1)
qed

theorem processUrls_windows_in_order_witness:
  "processUrls CONFIG site_env calm_data 0 =
     Some \<lparr> now = 9030, tasks = calm_tasks, console_error = [] \<rparr> \<and>
   fulfilled_at 0 (task (calm_tasks ! 0)) = 5010 \<and>
   started_at (calm_tasks ! 8) = 7010 \<and>
   fulfilled_at (started_at (calm_tasks ! 0)) (task (calm_tasks ! 0)) + CHUNK_DELAY CONFIG
     \<le> started_at (calm_tasks ! 8) \<and>
   started_at (site_tasks ! 1) + CHUNK_DELAY CONFIG \<le> started_at (site_tasks ! 8)"
proof -
  have cs: "0 < CHUNK_SIZE CONFIG"
    by (simp add: CONFIG_fields)
  from processUrls_windows_in_order [OF cs, of site_env calm_data 0]
  have calm: "windows_in_order CONFIG calm_tasks"
    by (simp add: processUrls_calm)
  from processUrls_windows_in_order [OF cs, of site_env site_data 0]
  have site: "windows_in_order CONFIG site_tasks"
    by (simp add: processUrls_site)
  have mem: "calm_tasks ! 0 \<in> set calm_tasks" "calm_tasks ! 8 \<in> set calm_tasks"
    "site_tasks ! 1 \<in> set site_tasks" "site_tasks ! 8 \<in> set site_tasks"
    by (simp_all add: calm_tasks_def site_tasks_def)
  have win: "window CONFIG (calm_tasks ! 0) < window CONFIG (calm_tasks ! 8)"
    "window CONFIG (site_tasks ! 1) < window CONFIG (site_tasks ! 8)"
    by (simp_all add: window_def calm_tasks_def site_tasks_def CONFIG_fields)
  have clean: "no_rejection_in_window CONFIG calm_tasks (calm_tasks ! 0)"
    by (simp add: no_rejection_in_window_def calm_tasks_def resolved_slow_def resolved_a_def
          resolved_b_def resolved_direct_def)
  have a: "fulfilled_at (started_at (calm_tasks ! 0)) (task (calm_tasks ! 0)) + CHUNK_DELAY CONFIG
             \<le> started_at (calm_tasks ! 8)"
    using calm mem(1,2) win(1) clean unfolding windows_in_order_def by blast
  have b: "started_at (site_tasks ! 1) + CHUNK_DELAY CONFIG \<le> started_at (site_tasks ! 8)"
    using site mem(3,4) win(2) unfolding windows_in_order_def by blast
  have v: "fulfilled_at 0 (task (calm_tasks ! 0)) = 5010" "started_at (calm_tasks ! 8) = 7010"
    by (simp_all add: calm_tasks_def resolved_slow_def)
  show ?thesis
    using processUrls_calm a b v by simp
qed

end
